theory Spec2Isabelle
  imports Complex_Main "HOL-Library.Word"
begin

section \<open>Gain-map core of libavif (src/gainmap.c)\<close>

text \<open>
  Conventions of the embedding.
  \<^item> C \<open>float\<close> and \<open>double\<close> values are modelled as exact reals: no rounding, no NaN,
    no infinities. Conversions between \<open>int\<close> and \<open>float\<close> are exact; \<open>(int)x\<close>
    truncates towards zero.
  \<^item> \<open>uint32_t\<close> and \<open>int32_t\<close> are \<open>32 word\<close>, \<open>int64_t\<close> is \<open>64 word\<close>; a signed
    value is read with \<open>sint\<close>, converted with \<open>scast\<close> and compared with the signed
    order \<open>word_sless\<close>. Loop counters and pixel counts of type \<open>int\<close> are modelled
    as \<open>int\<close>; they stay inside the 32-bit range in the functions below.
  \<^item> A C array of three elements is a value of type \<open>'a array3\<close>; a heap buffer is a list,
    and every read or write through an index is bounds-checked: an access outside the
    buffer makes the function return \<open>None\<close>.
\<close>

type_synonym uint8_t = "8 word"
type_synonym uint16_t = "16 word"
type_synonym uint32_t = "32 word"
type_synonym int32_t = "32 word"
type_synonym int64_t = "64 word"
type_synonym avifBool = "32 word"

subsection \<open>Macros and helpers declared outside gainmap.c\<close>

text \<open>Modelled from the spec: the macros \<open>AVIF_MIN\<close>, \<open>AVIF_MAX\<close> and \<open>AVIF_CLAMP\<close> of the
  public header (the spec writes \<open>min\<close>, \<open>max\<close> and \<open>clamp(x, lo, hi)\<close>), as conditional
  expressions on \<open><\<close> and \<open>>\<close>.\<close>

definition AVIF_MIN :: "'a::linorder \<Rightarrow> 'a \<Rightarrow> 'a" where
  "AVIF_MIN a b = (if a < b then a else b)"

definition AVIF_MAX :: "'a::linorder \<Rightarrow> 'a \<Rightarrow> 'a" where
  "AVIF_MAX a b = (if a > b then a else b)"

definition AVIF_CLAMP :: "'a::linorder \<Rightarrow> 'a \<Rightarrow> 'a \<Rightarrow> 'a" where
  "AVIF_CLAMP x low high = (if x < low then low else if high < x then high else x)"

text \<open>Modelled from the spec: \<open>avifRoundf\<close> (the spec's \<open>round\<close>), rounding to the nearest
  integer with halves going up, \<open>floor (v + 0.5)\<close>.\<close>

definition avifRoundf :: "real \<Rightarrow> real" where
  "avifRoundf v = of_int \<lfloor>v + 1 / 2\<rfloor>"

text \<open>\<open>ceilf\<close> of the C library.\<close>

definition ceilf :: "real \<Rightarrow> real" where
  "ceilf v = of_int \<lceil>v\<rceil>"

text \<open>The cast \<open>(int)x\<close> of a float: truncation towards zero.\<close>

definition int_of_float :: "real \<Rightarrow> int" where
  "int_of_float x = (if 0 \<le> x then \<lfloor>x\<rfloor> else \<lceil>x\<rceil>)"

datatype avifResult =
    AVIF_RESULT_OK
  | AVIF_RESULT_INVALID_ARGUMENT
  | AVIF_RESULT_NOT_IMPLEMENTED
  | AVIF_RESULT_OUT_OF_MEMORY
  | AVIF_RESULT_OTHER nat

datatype 'a array3 = Array3 'a 'a 'a

text \<open>\<open>at3 a i\<close> is \<open>a[i]\<close> for \<open>i\<close> in 0, 1, 2 (the only indices the code uses).\<close>

fun at3 :: "'a array3 \<Rightarrow> nat \<Rightarrow> 'a" where
  "at3 (Array3 x y z) i = (if i = 0 then x else if i = 1 then y else z)"

subsection \<open>Fractions\<close>

record avifSignedFraction =
  sn :: int32_t
  sd :: uint32_t

record avifUnsignedFraction =
  un :: uint32_t
  ud :: uint32_t

definition avifSignedFractionToFloat :: "avifSignedFraction \<Rightarrow> real" where
  "avifSignedFractionToFloat f =
     (if sd f = 0 then 0 else real_of_int (sint (sn f)) / real (unat (sd f)))"

definition avifUnsignedFractionToFloat :: "avifUnsignedFraction \<Rightarrow> real" where
  "avifUnsignedFractionToFloat f =
     (if ud f = 0 then 0 else real (unat (un f)) / real (unat (ud f)))"

subsection \<open>Gain-map metadata\<close>

text \<open>The fields of \<open>avifGainMap\<close> that gainmap.c reads or writes. \<open>avifBool\<close> is a C
  \<open>int\<close>. The alternate-rendition descriptors are kept as plain numbers, the ICC blob as
  bytes; the gain-map image itself is not part of the metadata functions below.\<close>

record avifGainMap =
  gainMapMin :: "avifSignedFraction array3"
  gainMapMax :: "avifSignedFraction array3"
  gainMapGamma :: "avifUnsignedFraction array3"
  baseOffset :: "avifSignedFraction array3"
  alternateOffset :: "avifSignedFraction array3"
  baseHdrHeadroom :: avifUnsignedFraction
  alternateHdrHeadroom :: avifUnsignedFraction
  useBaseColorSpace :: avifBool
  altICC :: "uint8_t list"
  altColorPrimaries :: nat
  altTransferCharacteristics :: nat
  altMatrixCoefficients :: nat
  altYUVRange :: nat
  altDepth :: uint32_t
  altPlaneCount :: uint32_t
  altCLLI :: "uint16_t \<times> uint16_t"

subsection \<open>Gain-map weight\<close>

definition avifGetGainMapWeight :: "real \<Rightarrow> avifGainMap \<Rightarrow> real" where
  "avifGetGainMapWeight hdrHeadroom gainMap =
     (let baseH = avifUnsignedFractionToFloat (baseHdrHeadroom gainMap);
          altH = avifUnsignedFractionToFloat (alternateHdrHeadroom gainMap)
      in if baseH = altH then 0
         else let w = AVIF_CLAMP ((hdrHeadroom - baseH) / (altH - baseH)) 0 1
              in if altH < baseH then - w else w)"

subsection \<open>Robust range estimator\<close>

text \<open>Bounds-checked read of a buffer at a C \<open>int\<close> index.\<close>

definition readAt :: "'a list \<Rightarrow> int \<Rightarrow> 'a option" where
  "readAt xs i = (if 0 \<le> i \<and> i < int (length xs) then Some (xs ! nat i) else None)"

definition avifValueToBucketIdx :: "real \<Rightarrow> real \<Rightarrow> real \<Rightarrow> int \<Rightarrow> int" where
  "avifValueToBucketIdx v bucketMin bucketMax numBuckets =
     (let v' = AVIF_CLAMP v bucketMin bucketMax
      in AVIF_MIN (int_of_float (avifRoundf ((v' - bucketMin) / (bucketMax - bucketMin)
                                              * of_int numBuckets)))
                  (numBuckets - 1))"

definition avifBucketIdxToValue :: "int \<Rightarrow> real \<Rightarrow> real \<Rightarrow> int \<Rightarrow> real" where
  "avifBucketIdxToValue idx bucketMin bucketMax numBuckets =
     of_int idx * (bucketMax - bucketMin) / of_int numBuckets + bucketMin"

text \<open>The loop \<open>for (i = 1; i < numPixels; ++i)\<close> computing the exact minimum and
  maximum.\<close>

function minMaxLoop :: "real list \<Rightarrow> int \<Rightarrow> int \<Rightarrow> real \<Rightarrow> real \<Rightarrow> (real \<times> real) option" where
  "minMaxLoop gainMapF numPixels i mn mx =
     (if i < numPixels then
        (case readAt gainMapF i of
           None \<Rightarrow> None
         | Some v \<Rightarrow> minMaxLoop gainMapF numPixels (i + 1) (AVIF_MIN mn v) (AVIF_MAX mx v))
      else Some (mn, mx))"
  by pat_completeness auto
termination
  by (relation "measure (\<lambda>(g, n, i, mn, mx). nat (n - i))") auto

declare minMaxLoop.simps [simp del]

text \<open>The loop filling the histogram: \<open>++histogram[avifValueToBucketIdx(...)]\<close>.\<close>

function histogramLoop :: "real list \<Rightarrow> int \<Rightarrow> real \<Rightarrow> real \<Rightarrow> int \<Rightarrow> int \<Rightarrow> int list
                            \<Rightarrow> int list option" where
  "histogramLoop gainMapF numPixels mn mx numBuckets i histogram =
     (if i < numPixels then
        (case readAt gainMapF i of
           None \<Rightarrow> None
         | Some v \<Rightarrow>
             (let b = avifValueToBucketIdx v mn mx numBuckets
              in case readAt histogram b of
                   None \<Rightarrow> None
                 | Some h \<Rightarrow> histogramLoop gainMapF numPixels mn mx numBuckets (i + 1)
                               (histogram[nat b := h + 1])))
      else Some histogram)"
  by pat_completeness auto
termination
  by (relation "measure (\<lambda>(g, n, mn, mx, nb, i, h). nat (n - i))") auto

declare histogramLoop.simps [simp del]

text \<open>The scan from the low end; the result is the final \<open>*rangeMin\<close>.\<close>

function leftScan :: "int list \<Rightarrow> int \<Rightarrow> int \<Rightarrow> real \<Rightarrow> real \<Rightarrow> int \<Rightarrow> int \<Rightarrow> real
                       \<Rightarrow> real option" where
  "leftScan histogram numBuckets maxOutliers mn mx i leftOutliers rangeMin =
     (if i < numBuckets then
        (case readAt histogram i of
           None \<Rightarrow> None
         | Some h \<Rightarrow>
             (let leftOutliers' = leftOutliers + h
              in if leftOutliers' > maxOutliers then Some rangeMin
                 else leftScan histogram numBuckets maxOutliers mn mx (i + 1) leftOutliers'
                        (if h = 0 then avifBucketIdxToValue (i + 1) mn mx numBuckets
                         else rangeMin)))
      else Some rangeMin)"
  by pat_completeness auto
termination
  by (relation "measure (\<lambda>(h, nb, mo, mn, mx, i, lo, r). nat (nb - i))") auto

declare leftScan.simps [simp del]

text \<open>The scan from the high end; the result is the final \<open>*rangeMax\<close>.\<close>

function rightScan :: "int list \<Rightarrow> int \<Rightarrow> int \<Rightarrow> real \<Rightarrow> real \<Rightarrow> int \<Rightarrow> int \<Rightarrow> real
                        \<Rightarrow> real option" where
  "rightScan histogram numBuckets maxOutliers mn mx i rightOutliers rangeMax =
     (if i \<ge> 0 then
        (case readAt histogram i of
           None \<Rightarrow> None
         | Some h \<Rightarrow>
             (let rightOutliers' = rightOutliers + h
              in if rightOutliers' > maxOutliers then Some rangeMax
                 else rightScan histogram numBuckets maxOutliers mn mx (i - 1) rightOutliers'
                        (if h = 0 then avifBucketIdxToValue i mn mx numBuckets
                         else rangeMax)))
      else Some rangeMax)"
  by pat_completeness auto
termination
  by (relation "measure (\<lambda>(h, nb, mo, mn, mx, i, ro, r). nat (i + 1))") auto

declare rightScan.simps [simp del]

text \<open>
  \<open>avifFindMinMaxWithoutOutliers gainMapF numPixels allocOk\<close>: \<open>allocOk\<close> tells whether
  \<open>avifAlloc\<close> of the histogram succeeds. The result is \<open>None\<close> when the function reads or
  writes outside a buffer, and otherwise the returned code with the final values of
  \<open>*rangeMin\<close> and \<open>*rangeMax\<close> (both are written before the histogram is allocated).
\<close>

definition avifFindMinMaxWithoutOutliers ::
    "real list \<Rightarrow> int \<Rightarrow> bool \<Rightarrow> (avifResult \<times> real \<times> real) option" where
  "avifFindMinMaxWithoutOutliers gainMapF numPixels allocOk =
     (let bucketSize = 1 / 100;
          maxOutliersRatio = 1 / 1000;
          maxOutliersOnEachSide =
            int_of_float (avifRoundf (of_int numPixels * maxOutliersRatio / 2))
      in case readAt gainMapF 0 of
           None \<Rightarrow> None
         | Some v0 \<Rightarrow>
            (case minMaxLoop gainMapF numPixels 1 v0 v0 of
               None \<Rightarrow> None
             | Some (mn, mx) \<Rightarrow>
                 if (mx - mn) \<le> bucketSize * 2 \<or> maxOutliersOnEachSide = 0
                 then Some (AVIF_RESULT_OK, mn, mx)
                 else
                   (let maxNumBuckets = 10000;
                        numBuckets = AVIF_MIN (int_of_float (ceilf ((mx - mn) / bucketSize)))
                                              maxNumBuckets
                    in if \<not> allocOk then Some (AVIF_RESULT_OUT_OF_MEMORY, mn, mx)
                       else
                         (case histogramLoop gainMapF numPixels mn mx numBuckets 0
                                 (replicate (nat numBuckets) 0) of
                            None \<Rightarrow> None
                          | Some histogram \<Rightarrow>
                             (case leftScan histogram numBuckets maxOutliersOnEachSide
                                     mn mx 0 0 mn of
                                None \<Rightarrow> None
                              | Some rangeMin \<Rightarrow>
                                 (case rightScan histogram numBuckets maxOutliersOnEachSide
                                         mn mx (numBuckets - 1) 0 mx of
                                    None \<Rightarrow> None
                                  | Some rangeMax \<Rightarrow>
                                      Some (AVIF_RESULT_OK, rangeMin, rangeMax)))))))"

subsection \<open>Metadata validation and equality\<close>

text \<open>Modelled from the spec: the diagnostics sink, which holds the text of the last message
  (formatted values are left out of the text) and is cleared on entry to each public
  call.\<close>

type_synonym avifDiagnostics = string

definition avifDiagnosticsClearError :: "avifDiagnostics \<Rightarrow> avifDiagnostics" where
  "avifDiagnosticsClearError diag = []"

definition avifDiagnosticsPrintf :: "avifDiagnostics \<Rightarrow> string \<Rightarrow> avifDiagnostics" where
  "avifDiagnosticsPrintf diag msg = msg"

definition AVIF_TRUE :: avifBool where
  "AVIF_TRUE = 1"

definition AVIF_FALSE :: avifBool where
  "AVIF_FALSE = 0"

definition avifGainMapSetEncodingDefaults :: "avifGainMap \<Rightarrow> avifGainMap" where
  "avifGainMapSetEncodingDefaults gainMap =
     (let one = \<lparr>sn = 1, sd = 1\<rparr>; off = \<lparr>sn = 1, sd = 64\<rparr>; uone = \<lparr>un = 1, ud = 1\<rparr>
      in gainMap\<lparr>gainMapMin := Array3 one one one,
                 gainMapMax := Array3 one one one,
                 baseOffset := Array3 off off off,
                 alternateOffset := Array3 off off off,
                 gainMapGamma := Array3 uone uone uone,
                 baseHdrHeadroom := \<lparr>un = 0, ud = 1\<rparr>,
                 alternateHdrHeadroom := \<lparr>un = 1, ud = 1\<rparr>,
                 useBaseColorSpace := AVIF_TRUE\<rparr>)"

text \<open>The per-channel loop of the validator. \<open>Some\<close> is a \<open>return\<close> from inside the loop,
  \<open>None\<close> is the loop running to its end. The comparison multiplies in \<open>int64_t\<close>:
  the \<open>int32_t\<close> numerator is sign-extended, the \<open>uint32_t\<close> denominator zero-extended.\<close>

function validateChannels ::
    "avifGainMap \<Rightarrow> nat \<Rightarrow> avifDiagnostics \<Rightarrow> (avifResult \<times> avifDiagnostics) option" where
  "validateChannels gainMap i diag =
     (if i < 3 then
        (if sd (at3 (gainMapMin gainMap) i) = 0 \<or> sd (at3 (gainMapMax gainMap) i) = 0 \<or>
            ud (at3 (gainMapGamma gainMap) i) = 0 \<or> sd (at3 (baseOffset gainMap) i) = 0 \<or>
            sd (at3 (alternateOffset gainMap) i) = 0
         then Some (AVIF_RESULT_INVALID_ARGUMENT,
                    avifDiagnosticsPrintf diag
                      ''Per-channel denominator is 0 in gain map metadata'')
         else if word_sless
                   ((scast (sn (at3 (gainMapMax gainMap) i)) :: int64_t)
                      * ucast (sd (at3 (gainMapMin gainMap) i)))
                   ((scast (sn (at3 (gainMapMin gainMap) i)) :: int64_t)
                      * ucast (sd (at3 (gainMapMax gainMap) i)))
         then Some (AVIF_RESULT_INVALID_ARGUMENT,
                    avifDiagnosticsPrintf diag
                      ''Per-channel max is less than per-channel min in gain map metadata'')
         else if un (at3 (gainMapGamma gainMap) i) = 0
         then Some (AVIF_RESULT_INVALID_ARGUMENT,
                    avifDiagnosticsPrintf diag ''Per-channel gamma is 0 in gain map metadata'')
         else validateChannels gainMap (i + 1) diag)
      else None)"
  by pat_completeness auto
termination
  by (relation "measure (\<lambda>(g, i, d). 3 - i)") auto

declare validateChannels.simps [simp del]

text \<open>The validator gets the metadata through a pointer to \<open>const\<close> and the sink through a
  plain pointer; the result holds the returned code and both objects as they are after
  the call.\<close>

definition avifGainMapValidateMetadata ::
    "avifGainMap \<Rightarrow> avifDiagnostics \<Rightarrow> avifResult \<times> avifGainMap \<times> avifDiagnostics" where
  "avifGainMapValidateMetadata gainMap diag =
     (case validateChannels gainMap 0 diag of
        Some (res, diag') \<Rightarrow> (res, gainMap, diag')
      | None \<Rightarrow>
          if ud (baseHdrHeadroom gainMap) = 0 \<or> ud (alternateHdrHeadroom gainMap) = 0
          then (AVIF_RESULT_INVALID_ARGUMENT, gainMap,
                avifDiagnosticsPrintf diag ''Headroom denominator is 0 in gain map metadata'')
          else if useBaseColorSpace gainMap \<noteq> 0 \<and> useBaseColorSpace gainMap \<noteq> 1
          then (AVIF_RESULT_INVALID_ARGUMENT, gainMap,
                avifDiagnosticsPrintf diag ''useBaseColorSpace is %d in gain map metadata'')
          else (AVIF_RESULT_OK, gainMap, diag))"

text \<open>The four invariants of the metadata as the specification words them, with the
  fractions read as exact rationals.\<close>

definition spec_metadata_invariants :: "avifGainMap \<Rightarrow> bool" where
  "spec_metadata_invariants g \<longleftrightarrow>
     ((\<forall>c\<in>{0, 1, 2}. sd (at3 (gainMapMin g) c) \<noteq> 0 \<and> sd (at3 (gainMapMax g) c) \<noteq> 0 \<and>
                     ud (at3 (gainMapGamma g) c) \<noteq> 0 \<and> sd (at3 (baseOffset g) c) \<noteq> 0 \<and>
                     sd (at3 (alternateOffset g) c) \<noteq> 0) \<and>
      ud (baseHdrHeadroom g) \<noteq> 0 \<and> ud (alternateHdrHeadroom g) \<noteq> 0) \<and>
     (\<forall>c\<in>{0, 1, 2}. Fract (sint (sn (at3 (gainMapMax g) c))) (uint (sd (at3 (gainMapMax g) c)))
                   \<ge> Fract (sint (sn (at3 (gainMapMin g) c)))
                            (uint (sd (at3 (gainMapMin g) c)))) \<and>
     (\<forall>c\<in>{0, 1, 2}. un (at3 (gainMapGamma g) c) \<noteq> 0) \<and>
     (useBaseColorSpace g = 0 \<or> useBaseColorSpace g = 1)"

text \<open>The per-channel loop of the comparison: \<open>Some AVIF_FALSE\<close> is the \<open>return\<close> inside
  the loop.\<close>

function sameChannels :: "avifGainMap \<Rightarrow> avifGainMap \<Rightarrow> nat \<Rightarrow> avifBool option" where
  "sameChannels a b c =
     (if c < 3 then
        (if sn (at3 (gainMapMin a) c) \<noteq> sn (at3 (gainMapMin b) c) \<or>
            sd (at3 (gainMapMin a) c) \<noteq> sd (at3 (gainMapMin b) c) \<or>
            sn (at3 (gainMapMax a) c) \<noteq> sn (at3 (gainMapMax b) c) \<or>
            sd (at3 (gainMapMax a) c) \<noteq> sd (at3 (gainMapMax b) c) \<or>
            un (at3 (gainMapGamma a) c) \<noteq> un (at3 (gainMapGamma b) c) \<or>
            ud (at3 (gainMapGamma a) c) \<noteq> ud (at3 (gainMapGamma b) c) \<or>
            sn (at3 (baseOffset a) c) \<noteq> sn (at3 (baseOffset b) c) \<or>
            sd (at3 (baseOffset a) c) \<noteq> sd (at3 (baseOffset b) c) \<or>
            sn (at3 (alternateOffset a) c) \<noteq> sn (at3 (alternateOffset b) c) \<or>
            sd (at3 (alternateOffset a) c) \<noteq> sd (at3 (alternateOffset b) c)
         then Some AVIF_FALSE
         else sameChannels a b (c + 1))
      else None)"
  by pat_completeness auto
termination
  by (relation "measure (\<lambda>(a, b, c). 3 - c)") auto

declare sameChannels.simps [simp del]

definition avifSameGainMapMetadata :: "avifGainMap \<Rightarrow> avifGainMap \<Rightarrow> avifBool" where
  "avifSameGainMapMetadata a b =
     (if un (baseHdrHeadroom a) \<noteq> un (baseHdrHeadroom b) \<or>
         ud (baseHdrHeadroom a) \<noteq> ud (baseHdrHeadroom b) \<or>
         un (alternateHdrHeadroom a) \<noteq> un (alternateHdrHeadroom b) \<or>
         ud (alternateHdrHeadroom a) \<noteq> ud (alternateHdrHeadroom b)
      then AVIF_FALSE
      else (case sameChannels a b 0 of Some r \<Rightarrow> r | None \<Rightarrow> AVIF_TRUE))"

text \<open>A metadata value with every field zero, as \<open>memset\<close> leaves it; used to build
  concrete inputs.\<close>

definition zeroGainMap :: avifGainMap where
  "zeroGainMap =
     (let z = \<lparr>sn = 0, sd = 0\<rparr>; uz = \<lparr>un = 0, ud = 0\<rparr>
      in \<lparr>gainMapMin = Array3 z z z, gainMapMax = Array3 z z z,
          gainMapGamma = Array3 uz uz uz, baseOffset = Array3 z z z,
          alternateOffset = Array3 z z z, baseHdrHeadroom = uz, alternateHdrHeadroom = uz,
          useBaseColorSpace = 0, altICC = [], altColorPrimaries = 0,
          altTransferCharacteristics = 0, altMatrixCoefficients = 0, altYUVRange = 0,
          altDepth = 0, altPlaneCount = 0, altCLLI = (0, 0)\<rparr>)"

subsection \<open>Computing a gain map: sign and range of the log-ratios\<close>

text \<open>\<open>set3 a i v\<close> is the array after \<open>a[i] = v\<close>, for \<open>i\<close> in 0, 1, 2.\<close>

fun set3 :: "'a array3 \<Rightarrow> nat \<Rightarrow> 'a \<Rightarrow> 'a array3" where
  "set3 (Array3 x y z) i v =
     (if i = 0 then Array3 v y z else if i = 1 then Array3 x v z else Array3 x y v)"

text \<open>
  The three nested loops that multiply \<open>gainMapF[c][j * width + i]\<close> by \<open>-1\<close>. The
  counters \<open>c\<close>, \<open>j\<close>, \<open>i\<close> and the dimensions are non-negative C \<open>int\<close>s, modelled as
  \<open>nat\<close>; every access is bounds-checked.
\<close>

function negateRow :: "real list \<Rightarrow> nat \<Rightarrow> nat \<Rightarrow> nat \<Rightarrow> real list option" where
  "negateRow buf width j i =
     (if i < width then
        (case readAt buf (int (j * width + i)) of
           None \<Rightarrow> None
         | Some v \<Rightarrow> negateRow (buf[j * width + i := v * (- 1)]) width j (i + 1))
      else Some buf)"
  by pat_completeness auto
termination
  by (relation "measure (\<lambda>(b, w, j, i). w - i)") auto

declare negateRow.simps [simp del]

function negateRows :: "real list \<Rightarrow> nat \<Rightarrow> nat \<Rightarrow> nat \<Rightarrow> real list option" where
  "negateRows buf width height j =
     (if j < height then
        (case negateRow buf width j 0 of
           None \<Rightarrow> None
         | Some buf' \<Rightarrow> negateRows buf' width height (j + 1))
      else Some buf)"
  by pat_completeness auto
termination
  by (relation "measure (\<lambda>(b, w, h, j). h - j)") auto

declare negateRows.simps [simp del]

function negateChannels ::
    "real list array3 \<Rightarrow> nat \<Rightarrow> nat \<Rightarrow> nat \<Rightarrow> nat \<Rightarrow> real list array3 option" where
  "negateChannels gainMapF numGainMapChannels width height c =
     (if c < numGainMapChannels then
        (case negateRows (at3 gainMapF c) width height 0 of
           None \<Rightarrow> None
         | Some buf' \<Rightarrow>
             negateChannels (set3 gainMapF c buf') numGainMapChannels width height (c + 1))
      else Some gainMapF)"
  by pat_completeness auto
termination
  by (relation "measure (\<lambda>(g, n, w, h, c). n - c)") auto

declare negateChannels.simps [simp del]

text \<open>The loop calling the range estimator on each channel; \<open>allocOk c\<close> tells whether the
  histogram of channel \<open>c\<close> can be allocated. A result other than Ok leaves the loop.\<close>

function rangesLoop ::
    "real list array3 \<Rightarrow> nat \<Rightarrow> int \<Rightarrow> (nat \<Rightarrow> bool) \<Rightarrow> nat \<Rightarrow> real array3 \<Rightarrow> real array3
       \<Rightarrow> (avifResult \<times> real array3 \<times> real array3) option" where
  "rangesLoop gainMapF numGainMapChannels numPixels allocOk c gainMapMinLog2 gainMapMaxLog2 =
     (if c < numGainMapChannels then
        (case avifFindMinMaxWithoutOutliers (at3 gainMapF c) numPixels (allocOk c) of
           None \<Rightarrow> None
         | Some (res, lo, hi) \<Rightarrow>
             if res \<noteq> AVIF_RESULT_OK
             then Some (res, set3 gainMapMinLog2 c lo, set3 gainMapMaxLog2 c hi)
             else rangesLoop gainMapF numGainMapChannels numPixels allocOk (c + 1)
                    (set3 gainMapMinLog2 c lo) (set3 gainMapMaxLog2 c hi))
      else Some (AVIF_RESULT_OK, gainMapMinLog2, gainMapMaxLog2))"
  by pat_completeness auto
termination
  by (relation "measure (\<lambda>(g, n, np, a, c, mn, mx). n - c)") auto

declare rangesLoop.simps [simp del]

text \<open>
  The part of \<open>avifRGBImageComputeGainMap\<close> from the headrooms to the range estimation
  ("Populate the gain map metadata's headrooms" up to "Find approximate min/max for each
  channel"). \<open>gainMapF\<close> holds the raw log2 ratios written by the main pass;
  \<open>toUnsignedFraction\<close> is \<open>avifDoubleToUnsignedFraction\<close> (defined outside gainmap.c),
  \<open>None\<close> when it returns false. The result is \<open>None\<close> on an access outside a buffer, and
  otherwise the value of \<open>res\<close> with the metadata, the buffers and the two range arrays
  as they are when the code leaves this part (by \<open>goto cleanup\<close> when \<open>res\<close> is not Ok).
\<close>

definition computeSignAndRanges ::
    "(real \<Rightarrow> avifUnsignedFraction option) \<Rightarrow> real \<Rightarrow> real \<Rightarrow> avifGainMap \<Rightarrow> real list array3 \<Rightarrow>
     nat \<Rightarrow> nat \<Rightarrow> nat \<Rightarrow> (nat \<Rightarrow> bool) \<Rightarrow>
     (avifResult \<times> avifGainMap \<times> real list array3 \<times> real array3 \<times> real array3) option" where
  "computeSignAndRanges toUnsignedFraction baseHeadroom alternateHeadroom gainMap gainMapF
       numGainMapChannels width height allocOk =
     (case toUnsignedFraction baseHeadroom of
        None \<Rightarrow> Some (AVIF_RESULT_INVALID_ARGUMENT, gainMap, gainMapF,
                      Array3 0 0 0, Array3 0 0 0)
      | Some bh \<Rightarrow>
          (let gainMap1 = gainMap\<lparr>baseHdrHeadroom := bh\<rparr>
           in case toUnsignedFraction alternateHeadroom of
                None \<Rightarrow> Some (AVIF_RESULT_INVALID_ARGUMENT, gainMap1, gainMapF,
                              Array3 0 0 0, Array3 0 0 0)
              | Some ah \<Rightarrow>
                  (let gainMap2 = gainMap1\<lparr>alternateHdrHeadroom := ah\<rparr>
                   in case (if alternateHeadroom < baseHeadroom
                            then negateChannels gainMapF numGainMapChannels width height 0
                            else Some gainMapF) of
                        None \<Rightarrow> None
                      | Some gainMapF' \<Rightarrow>
                          (case rangesLoop gainMapF' numGainMapChannels
                                  (int width * int height) allocOk 0
                                  (Array3 0 0 0) (Array3 0 0 0) of
                             None \<Rightarrow> None
                           | Some (res, mins, maxs) \<Rightarrow>
                               Some (res, gainMap2, gainMapF', mins, maxs)))))"

text \<open>A converter for concrete inputs, standing in for \<open>avifDoubleToUnsignedFraction\<close>
  on whole numbers: it fails on a negative value and gives \<open>x/1\<close> otherwise.\<close>

definition wholeToUnsignedFraction :: "real \<Rightarrow> avifUnsignedFraction option" where
  "wholeToUnsignedFraction x =
     (if x < 0 then None else Some \<lparr>un = word_of_int \<lfloor>x\<rfloor>, ud = 1\<rparr>)"


subsection \<open>Computing a gain map: exits and resources\<close>

text \<open>
  The control flow of \<open>avifRGBImageComputeGainMap\<close> with the resources it owns. The pixel
  arithmetic is left out; what each check and each call to a collaborator answers is read
  from an environment, one field per check or call, in the order of the source.
\<close>

record computeEnv =
  pointersNonNull :: bool
  sameDimensions :: bool
  imageDescriptionSet :: bool
  chooseColorSpaceRes :: avifResult
  inputColorSpaceInfoOk :: bool
  singleChannel :: bool
  allocGainMapFOk :: "nat \<Rightarrow> bool"
  colorSpacesDiffer :: bool
  conversionMatrixOk :: bool
  headroomsOk :: bool
  findMinMaxRes :: "nat \<Rightarrow> avifResult"
  fractionsOk :: bool
  allocatePlanesRes :: avifResult
  allocatePixelsRes :: avifResult
  gainMapColorSpaceInfoOk :: bool
  rgbToYuvRes :: avifResult
  scaleRequested :: bool
  scaleRes :: avifResult

text \<open>What is allocated: \<open>gainMapFLive\<close> tells for each channel whether \<open>gainMapF[c]\<close>
  points to a buffer that has not been freed, \<open>gainMapRGBLive\<close> the same for the pixels
  of the scratch image \<open>gainMapRGB\<close>, \<open>planesLive\<close> for the YUV planes of
  \<open>gainMap->image\<close>.\<close>

record resources =
  gainMapFLive :: "bool array3"
  gainMapRGBLive :: bool
  planesLive :: bool

text \<open>The code at the label \<open>cleanup\<close>, followed by \<open>return res\<close>.\<close>

definition cleanup :: "avifResult \<Rightarrow> resources \<Rightarrow> avifResult \<times> resources" where
  "cleanup res r =
     (res, r\<lparr>gainMapFLive := Array3 False False False,
             gainMapRGBLive := False,
             planesLive := (if res \<noteq> AVIF_RESULT_OK then False else planesLive r)\<rparr>)"

text \<open>The loop allocating \<open>gainMapF[c]\<close>; \<open>False\<close> when an allocation fails.\<close>

function allocGainMapF :: "computeEnv \<Rightarrow> nat \<Rightarrow> nat \<Rightarrow> resources \<Rightarrow> bool \<times> resources" where
  "allocGainMapF env numGainMapChannels c r =
     (if c < numGainMapChannels then
        (if allocGainMapFOk env c
         then allocGainMapF env numGainMapChannels (c + 1)
                (r\<lparr>gainMapFLive := set3 (gainMapFLive r) c True\<rparr>)
         else (False, r))
      else (True, r))"
  by pat_completeness auto
termination
  by (relation "measure (\<lambda>(e, n, c, r). n - c)") auto

declare allocGainMapF.simps [simp del]

text \<open>The loop over the channels calling the range estimator; the first result that is
  not Ok ends it.\<close>

function findMinMaxLoop :: "computeEnv \<Rightarrow> nat \<Rightarrow> nat \<Rightarrow> avifResult" where
  "findMinMaxLoop env numGainMapChannels c =
     (if c < numGainMapChannels then
        (if findMinMaxRes env c \<noteq> AVIF_RESULT_OK then findMinMaxRes env c
         else findMinMaxLoop env numGainMapChannels (c + 1))
      else AVIF_RESULT_OK)"
  by pat_completeness auto
termination
  by (relation "measure (\<lambda>(e, n, c). n - c)") auto

declare findMinMaxLoop.simps [simp del]

text \<open>\<open>avifRGBImageComputeGainMap env planes0\<close>: \<open>planes0\<close> tells whether the gain-map image
  comes with planes already allocated. The result is the returned code and what is still
  allocated when the function returns.\<close>

definition avifRGBImageComputeGainMap :: "computeEnv \<Rightarrow> bool \<Rightarrow> avifResult \<times> resources" where
  "avifRGBImageComputeGainMap env planes0 =
     (let r0 = \<lparr>gainMapFLive = Array3 False False False, gainMapRGBLive = False,
                planesLive = planes0\<rparr>
      in if \<not> pointersNonNull env then (AVIF_RESULT_INVALID_ARGUMENT, r0)
         else if \<not> sameDimensions env then (AVIF_RESULT_INVALID_ARGUMENT, r0)
         else if \<not> imageDescriptionSet env then (AVIF_RESULT_INVALID_ARGUMENT, r0)
         else if chooseColorSpaceRes env \<noteq> AVIF_RESULT_OK then (chooseColorSpaceRes env, r0)
         else if \<not> inputColorSpaceInfoOk env then (AVIF_RESULT_NOT_IMPLEMENTED, r0)
         else
           (let numGainMapChannels = (if singleChannel env then 1 else 3)
            in case allocGainMapF env numGainMapChannels 0 r0 of
                 (False, r1) \<Rightarrow> cleanup AVIF_RESULT_OUT_OF_MEMORY r1
               | (True, r1) \<Rightarrow>
                   if colorSpacesDiffer env \<and> \<not> conversionMatrixOk env
                   then cleanup AVIF_RESULT_NOT_IMPLEMENTED r1
                   else if \<not> headroomsOk env then cleanup AVIF_RESULT_INVALID_ARGUMENT r1
                   else if findMinMaxLoop env numGainMapChannels 0 \<noteq> AVIF_RESULT_OK
                   then cleanup (findMinMaxLoop env numGainMapChannels 0) r1
                   else if \<not> fractionsOk env then cleanup AVIF_RESULT_INVALID_ARGUMENT r1
                   else
                     (let r2 = r1\<lparr>planesLive := False\<rparr>
                      in if allocatePlanesRes env \<noteq> AVIF_RESULT_OK
                         then cleanup (allocatePlanesRes env) r2
                         else
                           (let r3 = r2\<lparr>planesLive := True\<rparr>
                            in if allocatePixelsRes env \<noteq> AVIF_RESULT_OK
                               then cleanup (allocatePixelsRes env) r3
                               else
                                 (let r4 = r3\<lparr>gainMapRGBLive := True\<rparr>
                                  in if \<not> gainMapColorSpaceInfoOk env
                                     then (AVIF_RESULT_NOT_IMPLEMENTED, r4)
                                     else if rgbToYuvRes env \<noteq> AVIF_RESULT_OK
                                     then cleanup (rgbToYuvRes env) r4
                                     else if scaleRequested env \<and>
                                             scaleRes env \<noteq> AVIF_RESULT_OK
                                     then (scaleRes env, r4)
                                     else cleanup AVIF_RESULT_OK r4)))))"

text \<open>An environment in which every check passes and every call succeeds, for a
  three-channel gain map of the requested size.\<close>

definition allOkEnv :: computeEnv where
  "allOkEnv =
     \<lparr>pointersNonNull = True, sameDimensions = True, imageDescriptionSet = True,
      chooseColorSpaceRes = AVIF_RESULT_OK, inputColorSpaceInfoOk = True,
      singleChannel = False, allocGainMapFOk = (\<lambda>c. True), colorSpacesDiffer = False,
      conversionMatrixOk = True, headroomsOk = True,
      findMinMaxRes = (\<lambda>c. AVIF_RESULT_OK), fractionsOk = True,
      allocatePlanesRes = AVIF_RESULT_OK, allocatePixelsRes = AVIF_RESULT_OK,
      gainMapColorSpaceInfoOk = True, rgbToYuvRes = AVIF_RESULT_OK,
      scaleRequested = False, scaleRes = AVIF_RESULT_OK\<rparr>"

subsection \<open>Applying a gain map: entry checks and the copy path\<close>

text \<open>The fields of \<open>avifRGBImage\<close> that the function reads or writes. \<open>pixels\<close> is the
  pixel buffer as a list of bytes (empty when nothing is allocated).\<close>

record avifRGBImage =
  width :: uint32_t
  height :: uint32_t
  depth :: uint32_t
  format :: nat
  isFloat :: avifBool
  pixels :: "uint8_t list"
  rowBytes :: uint32_t

text \<open>How a call ends: it returns a value, it stops in a failed \<open>assert\<close>, or it reads or
  writes outside a buffer.\<close>

datatype 'a outcome = Returns 'a | AssertionFailed | MemoryFault

text \<open>\<open>memcpy(dst, src, n)\<close> on buffers of known sizes: the first \<open>n\<close> bytes of \<open>dst\<close> are
  replaced by those of \<open>src\<close>; copying more than either buffer holds is a memory fault.\<close>

definition memcpy :: "uint8_t list \<Rightarrow> uint8_t list \<Rightarrow> nat \<Rightarrow> uint8_t list option" where
  "memcpy dst src n =
     (if n \<le> length dst \<and> n \<le> length src then Some (take n src @ drop n dst) else None)"

text \<open>
  \<open>avifRGBImageApplyGainMap\<close> up to its first early exit. Two parts of the function are
  parameters:
  \<^item> \<open>allocatePixels\<close> is \<open>avifRGBImageAllocatePixels\<close> (defined outside gainmap.c): it
    returns a code and the image as it leaves it;
  \<^item> \<open>remainder\<close> stands for everything after the first early exit (the conversion
    without gain map and the general tone-mapping path with its cleanup), given the
    allocated output image, the weight and the diagnostics.
  A \<open>NULL\<close> pointer is \<open>None\<close>. \<open>AVIF_CHECKRES(e)\<close> returns the code of \<open>e\<close> when it
  is not \<open>AVIF_RESULT_OK\<close>. The result holds the returned code, the object behind
  \<open>toneMappedImage\<close> and the diagnostics after the call. The byte count passed to
  \<open>memcpy\<close> is the product of two \<open>uint32_t\<close> values, computed in 32 bits.
\<close>

definition avifRGBImageApplyGainMap ::
    "(avifRGBImage \<Rightarrow> avifResult \<times> avifRGBImage) \<Rightarrow>
     (avifRGBImage \<Rightarrow> real \<Rightarrow> avifDiagnostics
        \<Rightarrow> (avifResult \<times> avifRGBImage option \<times> avifDiagnostics) outcome) \<Rightarrow>
     avifRGBImage option \<Rightarrow> nat \<Rightarrow> nat \<Rightarrow> avifGainMap option \<Rightarrow> real \<Rightarrow> nat \<Rightarrow> nat \<Rightarrow>
     avifRGBImage option \<Rightarrow> avifDiagnostics \<Rightarrow>
     (avifResult \<times> avifRGBImage option \<times> avifDiagnostics) outcome" where
  "avifRGBImageApplyGainMap allocatePixels remainder baseImage baseColorPrimaries
       baseTransferCharacteristics gainMap hdrHeadroom outputColorPrimaries
       outputTransferCharacteristics toneMappedImage diag0 =
     (let diag = avifDiagnosticsClearError diag0
      in if hdrHeadroom < 0
         then Returns (AVIF_RESULT_INVALID_ARGUMENT, toneMappedImage,
                       avifDiagnosticsPrintf diag ''hdrHeadroom should be >= 0, got %f'')
         else
           (case (baseImage, gainMap, toneMappedImage) of
              (Some base, Some gm, Some tm) \<Rightarrow>
                (case avifGainMapValidateMetadata gm diag of
                   (vres, gm', diag') \<Rightarrow>
                     if vres \<noteq> AVIF_RESULT_OK then Returns (vres, Some tm, diag')
                     else
                       (let tm1 = tm\<lparr>width := width base, height := height base\<rparr>
                        in case allocatePixels tm1 of
                             (ares, tm2) \<Rightarrow>
                               if ares \<noteq> AVIF_RESULT_OK then Returns (ares, Some tm2, diag')
                               else
                                 (let weight = avifGetGainMapWeight hdrHeadroom gm
                                  in if weight = 0 \<and>
                                        outputTransferCharacteristics = baseTransferCharacteristics \<and>
                                        outputColorPrimaries = baseColorPrimaries \<and>
                                        format base = format tm2 \<and> depth base = depth tm2 \<and>
                                        isFloat base = isFloat tm2
                                     then
                                       if rowBytes base \<noteq> rowBytes tm2 then AssertionFailed
                                       else if height base \<noteq> height tm2 then AssertionFailed
                                       else
                                         (case memcpy (pixels tm2) (pixels base)
                                                 (unat (rowBytes base * height base)) of
                                            None \<Rightarrow> MemoryFault
                                          | Some px \<Rightarrow>
                                              Returns (AVIF_RESULT_OK,
                                                       Some (tm2\<lparr>pixels := px\<rparr>), diag'))
                                     else remainder tm2 weight diag')))
            | _ \<Rightarrow> Returns (AVIF_RESULT_INVALID_ARGUMENT, toneMappedImage,
                            avifDiagnosticsPrintf diag ''NULL input image'')))"

text \<open>An allocator for concrete inputs, following the contract of
  \<open>avifRGBImageAllocatePixels\<close> for a format of four one-byte channels: rows without
  padding, \<open>rowBytes = 4 * width\<close>, and a fresh zeroed buffer of \<open>rowBytes * height\<close> bytes.\<close>

definition rgbaAllocatePixels :: "avifRGBImage \<Rightarrow> avifResult \<times> avifRGBImage" where
  "rgbaAllocatePixels rgb =
     (AVIF_RESULT_OK,
      rgb\<lparr>rowBytes := 4 * width rgb,
          pixels := replicate (unat (4 * width rgb) * unat (height rgb)) 0\<rparr>)"

text \<open>Concrete inputs: a 1x1 image of four one-byte channels, the same image with
  padded rows, an output image with nothing allocated, metadata whose two headrooms are
  equal, and a stand-in for the part of the function after the copy path.\<close>

definition pixel1x1 :: avifRGBImage where
  "pixel1x1 = \<lparr>width = 1, height = 1, depth = 8, format = 1, isFloat = 0,
               pixels = [10, 20, 30, 255], rowBytes = 4\<rparr>"


definition unallocated1x1 :: avifRGBImage where
  "unallocated1x1 = \<lparr>width = 0, height = 0, depth = 8, format = 1, isFloat = 0,
               pixels = [], rowBytes = 0\<rparr>"

definition sameHeadroomGainMap :: avifGainMap where
  "sameHeadroomGainMap =
     (avifGainMapSetEncodingDefaults zeroGainMap)\<lparr>alternateHdrHeadroom := \<lparr>un = 0, ud = 1\<rparr>\<rparr>"

definition noRemainder ::
    "avifRGBImage \<Rightarrow> real \<Rightarrow> avifDiagnostics
        \<Rightarrow> (avifResult \<times> avifRGBImage option \<times> avifDiagnostics) outcome" where
  "noRemainder tm weight diag = Returns (AVIF_RESULT_NOT_IMPLEMENTED, Some tm, diag)"


text \<open>Auxiliary for the proofs: a buffer whose first \<open>k\<close> values are negated.\<close>

definition negPrefix :: "nat \<Rightarrow> real list \<Rightarrow> real list" where
  "negPrefix k xs = map uminus (take k xs) @ drop k xs"


text \<open>Auxiliary predicates for the proofs: one channel passes the validator's loop body;
  one channel agrees in two metadata values; the fields the comparison reads.\<close>

definition chan_ok :: "avifGainMap \<Rightarrow> nat \<Rightarrow> bool" where
  "chan_ok g c \<longleftrightarrow>
     sd (at3 (gainMapMin g) c) \<noteq> 0 \<and> sd (at3 (gainMapMax g) c) \<noteq> 0 \<and>
     ud (at3 (gainMapGamma g) c) \<noteq> 0 \<and> sd (at3 (baseOffset g) c) \<noteq> 0 \<and>
     sd (at3 (alternateOffset g) c) \<noteq> 0 \<and>
     \<not> sint (sn (at3 (gainMapMax g) c)) * uint (sd (at3 (gainMapMin g) c))
         < sint (sn (at3 (gainMapMin g) c)) * uint (sd (at3 (gainMapMax g) c)) \<and>
     un (at3 (gainMapGamma g) c) \<noteq> 0"

definition chan_same :: "avifGainMap \<Rightarrow> avifGainMap \<Rightarrow> nat \<Rightarrow> bool" where
  "chan_same a b c \<longleftrightarrow>
     at3 (gainMapMin a) c = at3 (gainMapMin b) c \<and>
     at3 (gainMapMax a) c = at3 (gainMapMax b) c \<and>
     at3 (gainMapGamma a) c = at3 (gainMapGamma b) c \<and>
     at3 (baseOffset a) c = at3 (baseOffset b) c \<and>
     at3 (alternateOffset a) c = at3 (alternateOffset b) c"

definition compared_fields ::
    "avifGainMap \<Rightarrow> avifUnsignedFraction \<times> avifUnsignedFraction \<times> avifSignedFraction array3 \<times>
       avifSignedFraction array3 \<times> avifUnsignedFraction array3 \<times> avifSignedFraction array3 \<times>
       avifSignedFraction array3" where
  "compared_fields g =
     (baseHdrHeadroom g, alternateHdrHeadroom g, gainMapMin g, gainMapMax g, gainMapGamma g,
      baseOffset g, alternateOffset g)"

section \<open>Properties\<close>

subsection \<open>Gain-map weight\<close>


subsection \<open>Robust range estimator\<close>

lemma minMaxLoop_value:
  "0 \<le> i \<Longrightarrow> i \<le> numPixels \<Longrightarrow> numPixels = int (length B) \<Longrightarrow>
   minMaxLoop B numPixels i mn mx =
     Some (Min (insert mn (set (drop (nat i) B))), Max (insert mx (set (drop (nat i) B))))"
proof (induction B numPixels i mn mx rule: minMaxLoop.induct)
  case (1 B numPixels i mn mx)
  show ?case
  proof (cases "i < numPixels")
    case False
    with "1.prems" have "drop (nat i) B = []" by simp
    with False show ?thesis by (subst minMaxLoop.simps) simp
  next
    case True
    with "1.prems" have lt: "nat i < length B" by simp
    then have rd: "readAt B i = Some (B ! nat i)"
      using "1.prems" by (simp add: readAt_def)
    have dr: "drop (nat i) B = B ! nat i # drop (nat (i + 1)) B"
      using lt "1.prems" by (simp add: Cons_nth_drop_Suc nat_add_distrib)
    have fin: "finite (set (drop (nat (i + 1)) B))" by simp
    have IH: "minMaxLoop B numPixels (i + 1) (AVIF_MIN mn (B ! nat i)) (AVIF_MAX mx (B ! nat i)) =
      Some (Min (insert (AVIF_MIN mn (B ! nat i)) (set (drop (nat (i + 1)) B))),
            Max (insert (AVIF_MAX mx (B ! nat i)) (set (drop (nat (i + 1)) B))))"
      using "1.IH"[OF True rd] True "1.prems" by simp
    have m1: "Min (insert (AVIF_MIN mn (B ! nat i)) (set (drop (nat (i + 1)) B))) =
              Min (insert mn (set (drop (nat i) B)))"
      unfolding dr by (cases "set (drop (nat (i + 1)) B) = {}")
        (auto simp: AVIF_MIN_def min_def)
    have m2: "Max (insert (AVIF_MAX mx (B ! nat i)) (set (drop (nat (i + 1)) B))) =
              Max (insert mx (set (drop (nat i) B)))"
      unfolding dr by (cases "set (drop (nat (i + 1)) B) = {}")
        (auto simp: AVIF_MAX_def max_def)
    show ?thesis
      by (subst minMaxLoop.simps) (simp add: True rd IH m1 m2)
  qed
qed

lemma readAt_0: "B \<noteq> [] \<Longrightarrow> readAt B 0 = Some (B ! 0)"
  by (simp add: readAt_def)

lemma minMax_whole:
  assumes "1 \<le> numPixels" "numPixels = int (length B)"
  shows "minMaxLoop B numPixels 1 (B ! 0) (B ! 0) = Some (Min (set B), Max (set B))"
proof -
  from assms obtain x xs where B: "B = x # xs" by (cases B) auto
  have "minMaxLoop B numPixels 1 (B ! 0) (B ! 0) =
     Some (Min (insert (B ! 0) (set (drop (nat 1) B))), Max (insert (B ! 0) (set (drop (nat 1) B))))"
    using assms by (intro minMaxLoop_value) auto
  then show ?thesis by (simp add: B)
qed

lemma bucketIdx_range:
  assumes "mn < mx" "1 \<le> nb"
  shows "0 \<le> avifValueToBucketIdx v mn mx nb \<and> avifValueToBucketIdx v mn mx nb < nb"
proof -
  let ?v = "AVIF_CLAMP v mn mx"
  have "mn \<le> ?v" using assms by (simp add: AVIF_CLAMP_def)
  then have "0 \<le> (?v - mn) / (mx - mn) * of_int nb"
    using assms by simp
  then have "0 \<le> \<lfloor>(?v - mn) / (mx - mn) * of_int nb + 1 / 2\<rfloor>" by simp
  then have "0 \<le> int_of_float (avifRoundf ((?v - mn) / (mx - mn) * of_int nb))"
    by (simp add: int_of_float_def avifRoundf_def)
  then show ?thesis
    using assms by (simp add: avifValueToBucketIdx_def AVIF_MIN_def Let_def)
qed

lemma sum_list_bump:
  "k < length (xs :: int list) \<Longrightarrow> sum_list (xs[k := xs ! k + 1]) = sum_list xs + 1"
proof (induction xs arbitrary: k)
  case Nil then show ?case by simp
next
  case (Cons x xs) then show ?case by (cases k) simp_all
qed

lemma histogramLoop_total:
  "mn < mx \<Longrightarrow> 1 \<le> nb \<Longrightarrow> length hist = nat nb \<Longrightarrow> \<forall>x\<in>set hist. 0 \<le> x \<Longrightarrow>
   0 \<le> i \<Longrightarrow> i \<le> numPixels \<Longrightarrow> numPixels = int (length B) \<Longrightarrow>
   \<exists>h'. histogramLoop B numPixels mn mx nb i hist = Some h' \<and> length h' = nat nb \<and>
        (\<forall>x\<in>set h'. 0 \<le> x) \<and> sum_list h' = sum_list hist + (numPixels - i)"
proof (induction B numPixels mn mx nb i hist rule: histogramLoop.induct)
  case (1 B numPixels mn mx nb i hist)
  show ?case
  proof (cases "i < numPixels")
    case False
    with "1.prems" show ?thesis by (subst histogramLoop.simps) simp
  next
    case True
    let ?b = "avifValueToBucketIdx (B ! nat i) mn mx nb"
    let ?hist = "hist[nat ?b := hist ! nat ?b + 1]"
    have rd: "readAt B i = Some (B ! nat i)"
      using True "1.prems" by (simp add: readAt_def)
    have br: "0 \<le> ?b" "?b < nb"
      using bucketIdx_range[of mn mx nb "B ! nat i"] "1.prems" by simp_all
    then have bl: "nat ?b < length hist" using "1.prems" by simp
    have rh: "readAt hist ?b = Some (hist ! nat ?b)"
      using br "1.prems" by (simp add: readAt_def)
    have nn: "\<forall>x\<in>set ?hist. 0 \<le> x"
    proof
      fix x assume "x \<in> set ?hist"
      then have "x \<in> insert (hist ! nat ?b + 1) (set hist)"
        using set_update_subset_insert by fastforce
      moreover have "0 \<le> hist ! nat ?b" using bl "1.prems" by simp
      ultimately show "0 \<le> x" using "1.prems" by auto
    qed
    have "\<exists>h'. histogramLoop B numPixels mn mx nb (i + 1) ?hist = Some h' \<and> length h' = nat nb \<and>
        (\<forall>x\<in>set h'. 0 \<le> x) \<and> sum_list h' = sum_list ?hist + (numPixels - (i + 1))"
      using "1.IH"[OF True rd refl rh] "1.prems" True nn by simp
    then obtain h' where h': "histogramLoop B numPixels mn mx nb (i + 1) ?hist = Some h'"
      "length h' = nat nb" "\<forall>x\<in>set h'. 0 \<le> x"
      "sum_list h' = sum_list ?hist + (numPixels - (i + 1))" by blast
    have "histogramLoop B numPixels mn mx nb i hist = Some h'"
      by (subst histogramLoop.simps) (simp add: True rd rh Let_def h')
    moreover have "sum_list h' = sum_list hist + (numPixels - i)"
      using h'(4) sum_list_bump[OF bl] by simp
    ultimately show ?thesis using h' by blast
  qed
qed

lemma leftScan_total:
  "length hist = nat nb \<Longrightarrow> 0 \<le> i \<Longrightarrow> i \<le> nb \<Longrightarrow> lo = sum_list (take (nat i) hist) \<Longrightarrow>
   \<exists>r. leftScan hist nb mo mn mx i lo r0 = Some r \<and>
       (r = r0 \<or> (\<exists>k. i \<le> k \<and> k < nb \<and> r = avifBucketIdxToValue (k + 1) mn mx nb \<and>
                  sum_list (take (nat (k + 1)) hist) \<le> mo))"
proof (induction hist nb mo mn mx i lo r0 rule: leftScan.induct)
  case (1 hist nb mo mn mx i lo r0)
  show ?case
  proof (cases "i < nb")
    case False
    then show ?thesis by (subst leftScan.simps) simp
  next
    case True
    let ?h = "hist ! nat i"
    have rh: "readAt hist i = Some ?h" using True "1.prems" by (simp add: readAt_def)
    have il: "nat i < length hist" using True "1.prems" by simp
    have lo': "lo + ?h = sum_list (take (nat (i + 1)) hist)"
      using il "1.prems" by (simp add: nat_add_distrib take_Suc_conv_app_nth)
    show ?thesis
    proof (cases "lo + ?h > mo")
      case True
      then show ?thesis using \<open>i < nb\<close> rh by (subst leftScan.simps) (simp add: Let_def)
    next
      case False
      let ?r = "if ?h = 0 then avifBucketIdxToValue (i + 1) mn mx nb else r0"
      have "\<exists>r. leftScan hist nb mo mn mx (i + 1) (lo + ?h) ?r = Some r \<and>
       (r = ?r \<or> (\<exists>k. i + 1 \<le> k \<and> k < nb \<and> r = avifBucketIdxToValue (k + 1) mn mx nb \<and>
                  sum_list (take (nat (k + 1)) hist) \<le> mo))"
        using "1.IH"[OF True rh refl] False "1.prems" True lo' by simp
      then obtain r where r: "leftScan hist nb mo mn mx (i + 1) (lo + ?h) ?r = Some r"
        "r = ?r \<or> (\<exists>k. i + 1 \<le> k \<and> k < nb \<and> r = avifBucketIdxToValue (k + 1) mn mx nb \<and>
                  sum_list (take (nat (k + 1)) hist) \<le> mo)" by blast
      have eq: "leftScan hist nb mo mn mx i lo r0 = Some r"
        using True False rh r(1) by (subst leftScan.simps) (simp add: Let_def)
      have "r = r0 \<or> (\<exists>k. i \<le> k \<and> k < nb \<and> r = avifBucketIdxToValue (k + 1) mn mx nb \<and>
                  sum_list (take (nat (k + 1)) hist) \<le> mo)"
      proof (cases "r = ?r")
        case True
        show ?thesis
        proof (cases "?h = 0")
          case True
          with \<open>r = ?r\<close> \<open>i < nb\<close> False lo' show ?thesis by (intro disjI2 exI[of _ i]) simp
        next
          case False
          with \<open>r = ?r\<close> show ?thesis by simp
        qed
      next
        case False
        with r(2) obtain k where "i + 1 \<le> k" "k < nb" "r = avifBucketIdxToValue (k + 1) mn mx nb"
            "sum_list (take (nat (k + 1)) hist) \<le> mo" by blast
        then show ?thesis by (intro disjI2 exI[of _ k]) simp
      qed
      with eq show ?thesis by blast
    qed
  qed
qed

lemma rightScan_total:
  "length hist = nat nb \<Longrightarrow> - 1 \<le> i \<Longrightarrow> i < nb \<Longrightarrow> ro = sum_list (drop (nat (i + 1)) hist) \<Longrightarrow>
   \<exists>r. rightScan hist nb mo mn mx i ro r0 = Some r \<and>
       (r = r0 \<or> (\<exists>k. 0 \<le> k \<and> k \<le> i \<and> r = avifBucketIdxToValue k mn mx nb \<and>
                  sum_list (drop (nat k) hist) \<le> mo))"
proof (induction hist nb mo mn mx i ro r0 rule: rightScan.induct)
  case (1 hist nb mo mn mx i ro r0)
  show ?case
  proof (cases "0 \<le> i")
    case False
    then show ?thesis by (subst rightScan.simps) simp
  next
    case True
    let ?h = "hist ! nat i"
    have rh: "readAt hist i = Some ?h" using True "1.prems" by (simp add: readAt_def)
    have il: "nat i < length hist" using True "1.prems" by simp
    have "drop (nat i) hist = ?h # drop (nat (i + 1)) hist"
      using il True by (simp add: Cons_nth_drop_Suc nat_add_distrib)
    then have ro': "ro + ?h = sum_list (drop (nat i) hist)"
      using "1.prems" by simp
    show ?thesis
    proof (cases "ro + ?h > mo")
      case True
      then show ?thesis using \<open>0 \<le> i\<close> rh by (subst rightScan.simps) (simp add: Let_def)
    next
      case False
      let ?r = "if ?h = 0 then avifBucketIdxToValue i mn mx nb else r0"
      have "\<exists>r. rightScan hist nb mo mn mx (i - 1) (ro + ?h) ?r = Some r \<and>
       (r = ?r \<or> (\<exists>k. 0 \<le> k \<and> k \<le> i - 1 \<and> r = avifBucketIdxToValue k mn mx nb \<and>
                  sum_list (drop (nat k) hist) \<le> mo))"
        using "1.IH"[OF True rh refl] False "1.prems" True ro' by simp
      then obtain r where r: "rightScan hist nb mo mn mx (i - 1) (ro + ?h) ?r = Some r"
        "r = ?r \<or> (\<exists>k. 0 \<le> k \<and> k \<le> i - 1 \<and> r = avifBucketIdxToValue k mn mx nb \<and>
                  sum_list (drop (nat k) hist) \<le> mo)" by blast
      have eq: "rightScan hist nb mo mn mx i ro r0 = Some r"
        using True False rh r(1) by (subst rightScan.simps) (simp add: Let_def)
      have "r = r0 \<or> (\<exists>k. 0 \<le> k \<and> k \<le> i \<and> r = avifBucketIdxToValue k mn mx nb \<and>
                  sum_list (drop (nat k) hist) \<le> mo)"
      proof (cases "r = ?r")
        case True
        show ?thesis
        proof (cases "?h = 0")
          case True
          with \<open>r = ?r\<close> \<open>0 \<le> i\<close> False ro' show ?thesis by (intro disjI2 exI[of _ i]) simp
        next
          case False
          with \<open>r = ?r\<close> show ?thesis by simp
        qed
      next
        case False
        with r(2) obtain k where "0 \<le> k" "k \<le> i - 1" "r = avifBucketIdxToValue k mn mx nb"
            "sum_list (drop (nat k) hist) \<le> mo" by blast
        then show ?thesis by (intro disjI2 exI[of _ k]) simp
      qed
      with eq show ?thesis by blast
    qed
  qed
qed

lemma int_of_float_of_int: "int_of_float (of_int k) = k"
  by (simp add: int_of_float_def)

lemma int_of_float_round: "int_of_float (avifRoundf x) = \<lfloor>x + 1 / 2\<rfloor>"
  by (simp add: avifRoundf_def int_of_float_of_int)

lemma int_of_float_ceil: "int_of_float (ceilf x) = \<lceil>x\<rceil>"
  by (simp add: ceilf_def int_of_float_of_int)

lemma maxOutliers_bound:
  assumes "1 \<le> N" "mo = \<lfloor>real_of_int N / 2000 + 1 / 2\<rfloor>" "mo \<noteq> 0"
  shows "1 \<le> mo \<and> 2 * mo < N"
proof -
  have "0 \<le> real_of_int N / 2000 + 1 / 2" using assms(1) by simp
  then have "0 \<le> mo" using assms(2) by simp
  with assms(3) have one: "1 \<le> mo" by simp
  have le: "real_of_int mo \<le> real_of_int N / 2000 + 1 / 2"
    unfolding assms(2) by (rule of_int_floor_le)
  from one have "1 \<le> real_of_int mo" by simp
  with le have "1000 \<le> real_of_int N" by simp
  with le have "2 * real_of_int mo < real_of_int N" by simp
  then have "2 * mo < N" by linarith
  with one show ?thesis by simp
qed

lemma numBuckets_pos:
  fixes mx mn :: real
  assumes "\<not> (mx - mn) \<le> (1 / 100) * 2"
  shows "1 \<le> AVIF_MIN \<lceil>(mx - mn) / (1 / 100)\<rceil> (10000 :: int)"
proof -
  have "2 < (mx - mn) / (1 / 100)" using assms by simp
  then have "2 < \<lceil>(mx - mn) / (1 / 100)\<rceil>" by (simp add: less_ceiling_iff)
  then show ?thesis by (simp add: AVIF_MIN_def)
qed

lemma bucketValue_mono:
  "mn \<le> mx \<Longrightarrow> 0 < nb \<Longrightarrow> k \<le> k' \<Longrightarrow>
   avifBucketIdxToValue k mn mx nb \<le> avifBucketIdxToValue k' mn mx nb"
  by (simp add: avifBucketIdxToValue_def divide_right_mono mult_right_mono)

lemma bucketValue_0: "avifBucketIdxToValue 0 mn mx nb = mn"
  by (simp add: avifBucketIdxToValue_def)

lemma bucketValue_top: "0 < nb \<Longrightarrow> avifBucketIdxToValue nb mn mx nb = mx"
  by (simp add: avifBucketIdxToValue_def)

lemma sum_list_take_mono:
  "\<forall>x\<in>set (xs :: int list). 0 \<le> x \<Longrightarrow> a \<le> b \<Longrightarrow> sum_list (take a xs) \<le> sum_list (take b xs)"
proof -
  assume nn: "\<forall>x\<in>set xs. 0 \<le> x" and ab: "a \<le> b"
  have "take b xs = take a xs @ take (b - a) (drop a xs)"
    using ab by (metis le_add_diff_inverse take_add)
  moreover have "0 \<le> sum_list (take (b - a) (drop a xs))"
    using nn by (intro sum_list_nonneg) (meson in_set_dropD in_set_takeD)
  ultimately show ?thesis by simp
qed

lemma scans_do_not_cross:
  assumes nn: "\<forall>x\<in>set (hist :: int list). 0 \<le> x"
    and tot: "2 * mo < sum_list hist"
    and l: "sum_list (take (nat (k1 + 1)) hist) \<le> mo"
    and r: "sum_list (drop (nat k2) hist) \<le> mo"
    and k: "0 \<le> k1" "0 \<le> k2"
  shows "k1 + 1 < k2"
proof (rule ccontr)
  assume "\<not> k1 + 1 < k2"
  then have "nat k2 \<le> nat (k1 + 1)" using k by simp
  then have "sum_list (take (nat k2) hist) \<le> sum_list (take (nat (k1 + 1)) hist)"
    using nn by (rule sum_list_take_mono[rotated])
  moreover have "sum_list hist = sum_list (take (nat k2) hist) + sum_list (drop (nat k2) hist)"
    by (metis append_take_drop_id sum_list_append)
  ultimately show False using tot l r by simp
qed

lemma estimator_cases:
  assumes N: "1 \<le> N" "N = int (length B)"
  defines "mn \<equiv> Min (set B)" and "mx \<equiv> Max (set B)"
  defines "mo \<equiv> \<lfloor>real_of_int N / 2000 + 1 / 2\<rfloor>"
  shows "if mx - mn \<le> 2 / 100 \<or> mo = 0
         then avifFindMinMaxWithoutOutliers B N a = Some (AVIF_RESULT_OK, mn, mx)
         else if \<not> a
         then avifFindMinMaxWithoutOutliers B N a = Some (AVIF_RESULT_OUT_OF_MEMORY, mn, mx)
         else \<exists>lo hi. avifFindMinMaxWithoutOutliers B N a = Some (AVIF_RESULT_OK, lo, hi) \<and>
                mn \<le> lo \<and> lo \<le> hi \<and> hi \<le> mx"
proof -
  have ne: "B \<noteq> []" using N by auto
  have r0: "readAt B 0 = Some (B ! 0)" using ne by (rule readAt_0)
  have mm: "minMaxLoop B N 1 (B ! 0) (B ! 0) = Some (mn, mx)"
    unfolding mn_def mx_def using N by (rule minMax_whole)
  have mnmx: "mn \<le> mx" unfolding mn_def mx_def using ne by simp
  note pre = avifFindMinMaxWithoutOutliers_def Let_def r0 mm int_of_float_round int_of_float_ceil
  show ?thesis
  proof (cases "mx - mn \<le> 2 / 100 \<or> mo = 0")
    case True
    then show ?thesis by (auto simp: pre mo_def)
  next
    case early: False
    show ?thesis
    proof (cases a)
      case False
      with early show ?thesis by (simp add: pre mo_def)
    next
      case True
      define nb where "nb = AVIF_MIN \<lceil>(mx - mn) / (1 / 100)\<rceil> (10000 :: int)"
      have nb1: "1 \<le> nb" unfolding nb_def using early by (intro numBuckets_pos) simp
      have lt: "mn < mx" using early by simp
      from early have "mo \<noteq> 0" by simp
      then have mo: "1 \<le> mo" "2 * mo < N"
        using maxOutliers_bound[OF N(1), of mo] by (simp_all add: mo_def)
      have z: "sum_list (replicate (nat nb) (0::int)) = 0"
        by (simp add: sum_list_replicate)
      have "\<exists>h'. histogramLoop B N mn mx nb 0 (replicate (nat nb) 0) = Some h' \<and>
          length h' = nat nb \<and> (\<forall>x\<in>set h'. 0 \<le> x) \<and>
          sum_list h' = sum_list (replicate (nat nb) 0) + (N - 0)"
        using lt nb1 N by (intro histogramLoop_total) simp_all
      then obtain hist where h: "histogramLoop B N mn mx nb 0 (replicate (nat nb) 0) = Some hist"
         "length hist = nat nb" "\<forall>x\<in>set hist. 0 \<le> x" "sum_list hist = N"
        unfolding z by auto
      obtain lo where lo: "leftScan hist nb mo mn mx 0 0 mn = Some lo"
        "lo = mn \<or> (\<exists>k. 0 \<le> k \<and> k < nb \<and> lo = avifBucketIdxToValue (k + 1) mn mx nb \<and>
                  sum_list (take (nat (k + 1)) hist) \<le> mo)"
        using leftScan_total[of hist nb 0 0 mo mn mx mn] h(2) nb1 by auto
      obtain hi where hi: "rightScan hist nb mo mn mx (nb - 1) 0 mx = Some hi"
        "hi = mx \<or> (\<exists>k. 0 \<le> k \<and> k \<le> nb - 1 \<and> hi = avifBucketIdxToValue k mn mx nb \<and>
                  sum_list (drop (nat k) hist) \<le> mo)"
        using rightScan_total[of hist nb "nb - 1" 0 mo mn mx mx] h(2) nb1 by auto
      have res: "avifFindMinMaxWithoutOutliers B N a = Some (AVIF_RESULT_OK, lo, hi)"
        using early True h(1) lo(1) hi(1) by (simp add: pre nb_def mo_def)
      have nbpos: "0 < nb" using nb1 by simp
      have val: "\<And>k. 0 \<le> k \<Longrightarrow> k \<le> nb \<Longrightarrow>
          mn \<le> avifBucketIdxToValue k mn mx nb \<and> avifBucketIdxToValue k mn mx nb \<le> mx"
        using bucketValue_mono[OF mnmx nbpos, of 0] bucketValue_mono[OF mnmx nbpos, of _ nb]
        by (simp add: bucketValue_0 bucketValue_top nbpos)
      have tot: "2 * mo < sum_list hist" using mo h(4) by simp
      have "mn \<le> lo \<and> lo \<le> hi \<and> hi \<le> mx"
      proof (cases "lo = mn")
        case lmn: True
        show ?thesis
        proof (cases "hi = mx")
          case True
          with lmn mnmx show ?thesis by simp
        next
          case False
          with hi(2) obtain k where "0 \<le> k" "k \<le> nb - 1" "hi = avifBucketIdxToValue k mn mx nb"
            by blast
          then show ?thesis using lmn val[of k] by simp
        qed
      next
        case False
        with lo(2) obtain k1 where k1: "0 \<le> k1" "k1 < nb" "lo = avifBucketIdxToValue (k1 + 1) mn mx nb"
           "sum_list (take (nat (k1 + 1)) hist) \<le> mo" by blast
        show ?thesis
        proof (cases "hi = mx")
          case True
          then show ?thesis using k1 val[of "k1 + 1"] by simp
        next
          case False
          with hi(2) obtain k2 where k2: "0 \<le> k2" "k2 \<le> nb - 1" "hi = avifBucketIdxToValue k2 mn mx nb"
            "sum_list (drop (nat k2) hist) \<le> mo" by blast
          have "k1 + 1 < k2"
            using h(3) tot k1(4) k2(4) k1(1) k2(1) by (rule scans_do_not_cross)
          then have "lo \<le> hi"
            unfolding k1(3) k2(3) using bucketValue_mono[OF mnmx nbpos, of "k1 + 1" k2] by simp
          then show ?thesis using k1 k2 val[of "k1 + 1"] val[of k2] by simp
        qed
      qed
      with res early True show ?thesis by auto
    qed
  qed
qed

text \<open>Concrete runs: the two scans on a histogram of six buckets with one outlier allowed
  on each side, the histogram of a small buffer, and the whole estimator on 999 zeros
  and one value 0.03, which it discards as an outlier.\<close>

lemma leftScan_example:
  "leftScan [1, 0, 0, 5, 0, 1] 6 1 0 6 0 0 0 = Some 3"
  by (simp add: leftScan.simps readAt_def avifBucketIdxToValue_def)

lemma rightScan_example:
  "rightScan [1, 0, 0, 5, 0, 1] 6 1 0 6 5 0 6 = Some 4"
  by (simp add: rightScan.simps readAt_def avifBucketIdxToValue_def)

lemma histogramLoop_example:
  "histogramLoop [0, 3, 3.2, 6] 4 0 6 6 0 [0, 0, 0, 0, 0, 0] = Some [1, 0, 0, 2, 0, 1]"
  by (simp add: histogramLoop.simps readAt_def avifValueToBucketIdx_def AVIF_CLAMP_def
      AVIF_MIN_def avifRoundf_def int_of_float_def)


lemma outlier_example_histogram:
  "histogramLoop (replicate 999 0 @ [3 / 100]) 1000 0 (3 / 100) 3 0 [0, 0, 0] = Some [999, 0, 1]"
  by (simp add: histogramLoop.simps readAt_def avifValueToBucketIdx_def AVIF_CLAMP_def
      AVIF_MIN_def avifRoundf_def int_of_float_def nth_append)

lemma outlier_example:
  "avifFindMinMaxWithoutOutliers (replicate 999 0 @ [3 / 100]) 1000 True =
     Some (AVIF_RESULT_OK, 0, 1 / 100)"
proof -
  let ?B = "replicate 999 0 @ [3 / 100 :: real]"
  have r0: "readAt ?B 0 = Some 0" by (simp add: readAt_def nth_append)
  have s: "set ?B = {0, 3 / 100}" by auto
  have "minMaxLoop ?B 1000 1 (?B ! 0) (?B ! 0) = Some (Min (set ?B), Max (set ?B))"
    by (rule minMax_whole) simp_all
  then have mm: "minMaxLoop ?B 1000 1 0 0 = Some (0, 3 / 100)"
    unfolding s by (simp add: nth_append)
  have l: "leftScan [999, 0, 1] 3 1 0 (3 / 100) 0 0 0 = Some 0"
    by (simp add: leftScan.simps readAt_def)
  have r: "rightScan [999, 0, 1] 3 1 0 (3 / 100) 2 0 (3 / 100) = Some (1 / 100)"
    by (simp add: rightScan.simps readAt_def avifBucketIdxToValue_def)
  have z: "replicate (nat 3) (0 :: int) = [0, 0, 0]" by (simp add: numeral_eq_Suc)
  have mo: "int_of_float (avifRoundf (of_int 1000 * (1 / 1000) / 2)) = 1"
    by (simp add: int_of_float_round)
  have nb: "AVIF_MIN (int_of_float (ceilf ((3 / 100 - 0) / (1 / 100)))) (10000 :: int) = 3"
    by (simp add: int_of_float_ceil AVIF_MIN_def)
  have e: "\<not> ((3 / 100 - 0 :: real) \<le> 1 / 100 * 2 \<or> (1 :: int) = 0)" by simp
  show ?thesis
    unfolding avifFindMinMaxWithoutOutliers_def Let_def r0 option.case mm prod.case mo nb z
      outlier_example_histogram l
    using e r by simp
qed







subsection \<open>Metadata validation\<close>

lemma prod_bound:
  fixes a b :: int
  assumes "- (2 ^ 31) \<le> a" "a < 2 ^ 31" "0 \<le> b" "b < 2 ^ 32"
  shows "- (2 ^ 63) \<le> a * b \<and> a * b < 2 ^ 63"
proof -
  have "\<bar>a\<bar> \<le> 2 ^ 31" using assms by simp
  moreover have "\<bar>b\<bar> \<le> 2 ^ 32 - 1" using assms by simp
  ultimately have "\<bar>a\<bar> * \<bar>b\<bar> \<le> 2 ^ 31 * (2 ^ 32 - 1)"
    by (intro mult_mono) simp_all
  then have "\<bar>a * b\<bar> \<le> 2 ^ 31 * (2 ^ 32 - 1)" by (simp add: abs_mult)
  then have "\<bar>a * b\<bar> < 2 ^ 63" by simp
  then show ?thesis by linarith
qed

lemma sint_cross_product:
  fixes n :: "32 word" and d :: "32 word"
  shows "sint ((scast n :: 64 word) * ucast d) = sint n * uint d"
proof -
  have s: "sint (scast n :: 64 word) = sint n"
    by (rule sint_up_scast) (simp add: is_up)
  have "uint d < 2 ^ 32" using uint_bounded[of d] by simp
  then have "uint d < 2 ^ 63" by simp
  moreover have "- (2 ^ 63) \<le> uint d"
  proof -
    have "(0::int) \<le> uint d" by (rule uint_nonnegative)
    moreover have "- (2 ^ 63) \<le> (0::int)" by simp
    ultimately show ?thesis by (rule order_trans[rotated])
  qed
  ultimately have "signed_take_bit 63 (uint d) = uint d"
    by (intro signed_take_bit_int_eq_self) simp_all
  then have u: "sint (ucast d :: 64 word) = uint d"
    by (simp add: signed_ucast_eq)
  have b: "- (2 ^ 63) \<le> sint n * uint d \<and> sint n * uint d < 2 ^ 63"
    using sint_ge[of n] sint_lt[of n] uint_bounded[of d] by (intro prod_bound) simp_all
  have "sint ((scast n :: 64 word) * ucast d) = signed_take_bit 63 (sint n * uint d)"
    by (simp add: sint_word_ariths s u)
  also have "\<dots> = sint n * uint d"
    using b by (intro signed_take_bit_int_eq_self) simp_all
  finally show ?thesis .
qed

lemma validateChannels_step:
  "i < 3 \<Longrightarrow> chan_ok g i \<Longrightarrow> j = i + 1 \<Longrightarrow>
   validateChannels g i d = validateChannels g j d"
  by (subst validateChannels.simps)
     (simp add: chan_ok_def word_sless_alt sint_cross_product)

lemma validateChannels_fail:
  "i < 3 \<Longrightarrow> \<not> chan_ok g i \<Longrightarrow>
   \<exists>d'. validateChannels g i d = Some (AVIF_RESULT_INVALID_ARGUMENT, d')"
  by (subst validateChannels.simps)
     (auto simp: chan_ok_def word_sless_alt sint_cross_product)

lemma validateChannels_end: "validateChannels g 3 d = None"
  by (subst validateChannels.simps) simp

lemma validateChannels_cases:
  "if chan_ok g 0 \<and> chan_ok g 1 \<and> chan_ok g 2
   then validateChannels g 0 d = None
   else \<exists>d'. validateChannels g 0 d = Some (AVIF_RESULT_INVALID_ARGUMENT, d')"
proof (cases "chan_ok g 0")
  case False
  then show ?thesis using validateChannels_fail[of 0 g d] by simp
next
  case c0: True
  have s0: "validateChannels g 0 d = validateChannels g 1 d"
    by (rule validateChannels_step) (use c0 in simp_all)
  show ?thesis
  proof (cases "chan_ok g 1")
    case False
    then obtain d' where "validateChannels g 1 d = Some (AVIF_RESULT_INVALID_ARGUMENT, d')"
      using validateChannels_fail[of 1 g d] by auto
    then have "validateChannels g 0 d = Some (AVIF_RESULT_INVALID_ARGUMENT, d')"
      unfolding s0 .
    then show ?thesis using False by (simp only: simp_thms if_False) blast
  next
    case c1: True
    have s1: "validateChannels g 1 d = validateChannels g 2 d"
      by (rule validateChannels_step) (use c1 in simp_all)
    show ?thesis
    proof (cases "chan_ok g 2")
      case False
      then obtain d' where "validateChannels g 2 d = Some (AVIF_RESULT_INVALID_ARGUMENT, d')"
        using validateChannels_fail[of 2 g d] by auto
      then have "validateChannels g 0 d = Some (AVIF_RESULT_INVALID_ARGUMENT, d')"
        unfolding s0 s1 .
      then show ?thesis using False by (simp only: simp_thms if_False) blast
    next
      case True
      have s2: "validateChannels g 2 d = validateChannels g 3 d"
        by (rule validateChannels_step) (use True in simp_all)
      note s0
      also note s1
      also note s2
      also note validateChannels_end
      finally have "validateChannels g 0 d = None" .
      moreover have "chan_ok g 0 \<and> chan_ok g 1 \<and> chan_ok g 2"
        using c0 c1 True by blast
      ultimately show ?thesis by (simp only: if_True simp_thms)
    qed
  qed
qed

lemma Fract_le_cross:
  assumes "0 < b" "0 < d"
  shows "Fract a b \<le> Fract c d \<longleftrightarrow> a * d \<le> c * b"
proof -
  have "0 < b * d" using assms by simp
  then have "(a * d) * (b * d) \<le> (c * b) * (b * d) \<longleftrightarrow> a * d \<le> c * b"
    by (rule mult_le_cancel_right_pos)
  then show ?thesis using assms by simp
qed

lemma uint_pos: "w \<noteq> 0 \<Longrightarrow> 0 < uint (w :: 32 word)"
  by (simp add: word_greater_zero_iff[symmetric] word_less_def)

lemma invariants_chan_ok:
  "spec_metadata_invariants g \<longleftrightarrow>
     (chan_ok g 0 \<and> chan_ok g 1 \<and> chan_ok g 2) \<and>
     ud (baseHdrHeadroom g) \<noteq> 0 \<and> ud (alternateHdrHeadroom g) \<noteq> 0 \<and>
     (useBaseColorSpace g = 0 \<or> useBaseColorSpace g = 1)"
proof -
  have fr: "\<And>c. sd (at3 (gainMapMin g) c) \<noteq> 0 \<Longrightarrow> sd (at3 (gainMapMax g) c) \<noteq> 0 \<Longrightarrow>
     (Fract (sint (sn (at3 (gainMapMin g) c))) (uint (sd (at3 (gainMapMin g) c)))
        \<le> Fract (sint (sn (at3 (gainMapMax g) c))) (uint (sd (at3 (gainMapMax g) c))))
     \<longleftrightarrow> \<not> sint (sn (at3 (gainMapMax g) c)) * uint (sd (at3 (gainMapMin g) c))
         < sint (sn (at3 (gainMapMin g) c)) * uint (sd (at3 (gainMapMax g) c))"
    by (subst Fract_le_cross) (auto simp: uint_pos not_less)
  show ?thesis
    unfolding spec_metadata_invariants_def chan_ok_def
    using fr[of 0] fr[of 1] fr[of 2] by auto
qed

text \<open>
  C2. avifGainMapValidateMetadata returns Ok if and only if the four invariants of the
  metadata hold (every listed denominator non-zero; gainMapMax[c] >= gainMapMin[c] as exact
  rationals, which the 64-bit cross-multiplication decides without overflow for every
  int32/uint32 input; gainMapGamma[c].n non-zero; useBaseColorSpace 0 or 1); it returns
  InvalidArgument otherwise; and it leaves the metadata as it was.
\<close>

theorem validate_ok_iff_invariants:
  "fst (avifGainMapValidateMetadata g diag) =
     (if spec_metadata_invariants g then AVIF_RESULT_OK else AVIF_RESULT_INVALID_ARGUMENT) \<and>
   fst (snd (avifGainMapValidateMetadata g diag)) = g"
proof (cases "chan_ok g 0 \<and> chan_ok g 1 \<and> chan_ok g 2")
  case True
  then have "validateChannels g 0 diag = None"
    using validateChannels_cases[of g diag] by simp
  then show ?thesis
    using True by (simp add: avifGainMapValidateMetadata_def invariants_chan_ok)
next
  case False
  then obtain d' where "validateChannels g 0 diag = Some (AVIF_RESULT_INVALID_ARGUMENT, d')"
    using validateChannels_cases[of g diag] by auto
  moreover have "\<not> spec_metadata_invariants g"
    using False by (simp only: invariants_chan_ok) blast
  ultimately show ?thesis
    by (simp add: avifGainMapValidateMetadata_def)
qed

theorem validate_ok_iff_invariants_witness:
  "fst (avifGainMapValidateMetadata (avifGainMapSetEncodingDefaults zeroGainMap) []) =
     AVIF_RESULT_OK \<and>
   fst (avifGainMapValidateMetadata zeroGainMap []) = AVIF_RESULT_INVALID_ARGUMENT"
proof -
  have a: "spec_metadata_invariants (avifGainMapSetEncodingDefaults zeroGainMap)"
    by (simp add: spec_metadata_invariants_def avifGainMapSetEncodingDefaults_def
        zeroGainMap_def AVIF_TRUE_def Let_def)
  have b: "\<not> spec_metadata_invariants zeroGainMap"
    by (simp add: spec_metadata_invariants_def zeroGainMap_def Let_def)
  from validate_ok_iff_invariants[of "avifGainMapSetEncodingDefaults zeroGainMap" "[]"] a
  have "fst (avifGainMapValidateMetadata (avifGainMapSetEncodingDefaults zeroGainMap) []) =
     AVIF_RESULT_OK" by (simp only: if_True)
  moreover from validate_ok_iff_invariants[of zeroGainMap "[]"] b
  have "fst (avifGainMapValidateMetadata zeroGainMap []) = AVIF_RESULT_INVALID_ARGUMENT"
    by (simp only: if_False)
  ultimately show ?thesis by blast
qed


subsection \<open>Metadata equality\<close>

lemma sfrac_eq: "(x :: avifSignedFraction) = y \<longleftrightarrow> sn x = sn y \<and> sd x = sd y"
  by (cases x, cases y) simp

lemma ufrac_eq: "(x :: avifUnsignedFraction) = y \<longleftrightarrow> un x = un y \<and> ud x = ud y"
  by (cases x, cases y) simp

lemma array3_eq: "x = y \<longleftrightarrow> at3 x 0 = at3 y 0 \<and> at3 x 1 = at3 y 1 \<and> at3 x 2 = at3 y 2"
  by (cases x, cases y) simp

lemma sameChannels_step:
  "c < 3 \<Longrightarrow> chan_same a b c \<Longrightarrow> c' = c + 1 \<Longrightarrow> sameChannels a b c = sameChannels a b c'"
  by (subst sameChannels.simps) (simp add: chan_same_def)

lemma sameChannels_fail:
  "c < 3 \<Longrightarrow> \<not> chan_same a b c \<Longrightarrow> sameChannels a b c = Some AVIF_FALSE"
  by (subst sameChannels.simps) (auto simp: chan_same_def sfrac_eq ufrac_eq)

lemma sameChannels_end: "sameChannels a b 3 = None"
  by (subst sameChannels.simps) simp

lemma sameChannels_cases:
  "sameChannels a b 0 =
     (if chan_same a b 0 \<and> chan_same a b 1 \<and> chan_same a b 2 then None else Some AVIF_FALSE)"
proof (cases "chan_same a b 0")
  case False
  then show ?thesis using sameChannels_fail[of 0 a b] by simp
next
  case c0: True
  have s0: "sameChannels a b 0 = sameChannels a b 1"
    by (rule sameChannels_step) (use c0 in simp_all)
  show ?thesis
  proof (cases "chan_same a b 1")
    case False
    then have "sameChannels a b 1 = Some AVIF_FALSE" by (intro sameChannels_fail) simp_all
    then have "sameChannels a b 0 = Some AVIF_FALSE" unfolding s0 .
    then show ?thesis using False by (simp only: simp_thms if_False)
  next
    case c1: True
    have s1: "sameChannels a b 1 = sameChannels a b 2"
      by (rule sameChannels_step) (use c1 in simp_all)
    show ?thesis
    proof (cases "chan_same a b 2")
      case False
      then have "sameChannels a b 2 = Some AVIF_FALSE" by (intro sameChannels_fail) simp_all
      then have "sameChannels a b 0 = Some AVIF_FALSE" unfolding s0 s1 .
      then show ?thesis using False by (simp only: simp_thms if_False)
    next
      case True
      have s2: "sameChannels a b 2 = sameChannels a b 3"
        by (rule sameChannels_step) (use True in simp_all)
      note s0
      also note s1
      also note s2
      also note sameChannels_end
      finally have "sameChannels a b 0 = None" .
      moreover have "chan_same a b 0 \<and> chan_same a b 1 \<and> chan_same a b 2"
        using c0 c1 True by blast
      ultimately show ?thesis by (simp only: if_True simp_thms)
    qed
  qed
qed

lemma compared_fields_eq:
  "compared_fields a = compared_fields b \<longleftrightarrow>
     baseHdrHeadroom a = baseHdrHeadroom b \<and> alternateHdrHeadroom a = alternateHdrHeadroom b \<and>
     chan_same a b 0 \<and> chan_same a b 1 \<and> chan_same a b 2"
  unfolding compared_fields_def chan_same_def prod.inject
    array3_eq[of "gainMapMin a"] array3_eq[of "gainMapMax a"] array3_eq[of "gainMapGamma a"]
    array3_eq[of "baseOffset a"] array3_eq[of "alternateOffset a"]
  by blast

lemma sameMetadata_by_fields:
  "avifSameGainMapMetadata x y =
     (if compared_fields x = compared_fields y then AVIF_TRUE else AVIF_FALSE)"
  unfolding compared_fields_eq avifSameGainMapMetadata_def sameChannels_cases ufrac_eq
  by (simp only: option.case if_distrib[of "case_option AVIF_TRUE (\<lambda>r. r)"]
                 split: if_splits) blast

text \<open>
  C3 (amended). avifSameGainMapMetadata is reflexive, and it compares exactly the two
  headrooms and the per-channel min, max, gamma, base offset and alternate offset, numerators
  and denominators raw: it answers false for every pair that differs in one of these fields
  and true for every pair that agrees on all of them, whatever the other fields hold.
\<close>

theorem same_metadata_compares_listed_fields:
  "avifSameGainMapMetadata a a = AVIF_TRUE \<and>
   avifSameGainMapMetadata a b =
     (if compared_fields a = compared_fields b then AVIF_TRUE else AVIF_FALSE)"
  using sameMetadata_by_fields[of a a] sameMetadata_by_fields[of a b] by simp

theorem same_metadata_compares_listed_fields_witness:
  "avifSameGainMapMetadata (avifGainMapSetEncodingDefaults zeroGainMap)
      (avifGainMapSetEncodingDefaults zeroGainMap) = AVIF_TRUE \<and>
   avifSameGainMapMetadata (avifGainMapSetEncodingDefaults zeroGainMap)
      ((avifGainMapSetEncodingDefaults zeroGainMap)\<lparr>baseHdrHeadroom := \<lparr>un = 5, ud = 1\<rparr>\<rparr>)
     = AVIF_FALSE"
proof -
  let ?M = "avifGainMapSetEncodingDefaults zeroGainMap"
  let ?M' = "?M\<lparr>baseHdrHeadroom := \<lparr>un = 5, ud = 1\<rparr>\<rparr>"
  have "compared_fields ?M \<noteq> compared_fields ?M'"
    by (simp add: compared_fields_def avifGainMapSetEncodingDefaults_def Let_def)
  with same_metadata_compares_listed_fields[of ?M ?M'] show ?thesis
    by (simp only: if_False simp_thms)
qed

text \<open>
  C3 as stated fails: two metadata values that differ only in useBaseColorSpace (a field of
  the metadata that the comparison does not read) are reported equal.
\<close>

theorem same_metadata_ignores_useBaseColorSpace:
  "avifSameGainMapMetadata (avifGainMapSetEncodingDefaults zeroGainMap)
      ((avifGainMapSetEncodingDefaults zeroGainMap)\<lparr>useBaseColorSpace := AVIF_FALSE\<rparr>)
     = AVIF_TRUE \<and>
   (avifGainMapSetEncodingDefaults zeroGainMap)\<lparr>useBaseColorSpace := AVIF_FALSE\<rparr>
     \<noteq> avifGainMapSetEncodingDefaults zeroGainMap \<and> AVIF_TRUE \<noteq> AVIF_FALSE"
proof -
  let ?M = "avifGainMapSetEncodingDefaults zeroGainMap"
  have "compared_fields ?M = compared_fields (?M\<lparr>useBaseColorSpace := AVIF_FALSE\<rparr>)"
    by (simp add: compared_fields_def)
  then have "avifSameGainMapMetadata ?M (?M\<lparr>useBaseColorSpace := AVIF_FALSE\<rparr>) = AVIF_TRUE"
    using sameMetadata_by_fields[of ?M "?M\<lparr>useBaseColorSpace := AVIF_FALSE\<rparr>"]
    by (simp only: if_True simp_thms)
  moreover have "useBaseColorSpace (?M\<lparr>useBaseColorSpace := AVIF_FALSE\<rparr>) \<noteq> useBaseColorSpace ?M"
    by (simp add: avifGainMapSetEncodingDefaults_def AVIF_TRUE_def AVIF_FALSE_def Let_def)
  then have "?M\<lparr>useBaseColorSpace := AVIF_FALSE\<rparr> \<noteq> ?M" by metis
  moreover have "AVIF_TRUE \<noteq> AVIF_FALSE" by (simp add: AVIF_TRUE_def AVIF_FALSE_def)
  ultimately show ?thesis by blast
qed

subsection \<open>Applying a gain map\<close>


lemma validate_fail_full:
  assumes "\<not> spec_metadata_invariants g"
  shows "\<exists>d'. avifGainMapValidateMetadata g d = (AVIF_RESULT_INVALID_ARGUMENT, g, d')"
proof (cases "chan_ok g 0 \<and> chan_ok g 1 \<and> chan_ok g 2")
  case True
  then have "validateChannels g 0 d = None"
    using validateChannels_cases[of g d] by simp
  moreover have "ud (baseHdrHeadroom g) = 0 \<or> ud (alternateHdrHeadroom g) = 0 \<or>
      (useBaseColorSpace g \<noteq> 0 \<and> useBaseColorSpace g \<noteq> 1)"
    using assms True unfolding invariants_chan_ok by blast
  ultimately show ?thesis by (auto simp: avifGainMapValidateMetadata_def)
next
  case False
  then obtain d' where "validateChannels g 0 d = Some (AVIF_RESULT_INVALID_ARGUMENT, d')"
    using validateChannels_cases[of g d] by auto
  then show ?thesis by (simp add: avifGainMapValidateMetadata_def)
qed

text \<open>The byte count of the copy is a 32-bit product: for a base image of \<open>2^32\<close> bytes
  it is 0.\<close>

lemma memcpy_count_wraps: "unat ((65536 :: uint32_t) * 65536) = 0"
  by simp





lemma zero_invalid: "\<not> spec_metadata_invariants zeroGainMap"
  by (simp add: spec_metadata_invariants_def zeroGainMap_def Let_def)


text \<open>
  C9. avifRGBImageApplyGainMap returns InvalidArgument whenever hdrHeadroom < 0, whenever
  baseImage, gainMap or toneMappedImage is null, and whenever the metadata breaks a
  validation invariant. The checks come before any tone-mapping work: the answer does not
  depend on the allocator or on the rest of the function, and the output image is left as
  it was.
\<close>

theorem apply_rejects_invalid_arguments:
  assumes "hdrHeadroom < 0 \<or> baseImage = None \<or> gainMap = None \<or> toneMappedImage = None \<or>
           (\<exists>gm. gainMap = Some gm \<and> \<not> spec_metadata_invariants gm)"
  shows "\<exists>d. avifRGBImageApplyGainMap allocatePixels remainder baseImage bp bt gainMap
                hdrHeadroom outp outt toneMappedImage diag0 =
              Returns (AVIF_RESULT_INVALID_ARGUMENT, toneMappedImage, d)"
proof (cases "hdrHeadroom < 0")
  case True
  then show ?thesis by (simp add: avifRGBImageApplyGainMap_def)
next
  case h: False
  show ?thesis
  proof (cases "baseImage = None \<or> gainMap = None \<or> toneMappedImage = None")
    case True
    then show ?thesis using h
      by (cases baseImage; cases gainMap; cases toneMappedImage)
         (simp_all add: avifRGBImageApplyGainMap_def Let_def)
  next
    case False
    then obtain base gm tm where s: "baseImage = Some base" "gainMap = Some gm"
        "toneMappedImage = Some tm" by auto
    with assms h have "\<not> spec_metadata_invariants gm" by auto
    then obtain d' where "avifGainMapValidateMetadata gm (avifDiagnosticsClearError diag0) =
        (AVIF_RESULT_INVALID_ARGUMENT, gm, d')"
      using validate_fail_full by blast
    then show ?thesis using h s by (simp add: avifRGBImageApplyGainMap_def)
  qed
qed


theorem apply_rejects_invalid_arguments_witness:
  "(\<exists>d. avifRGBImageApplyGainMap rgbaAllocatePixels noRemainder (Some pixel1x1) 1 13
          (Some sameHeadroomGainMap) (- 1) 1 13 (Some unallocated1x1) [] =
        Returns (AVIF_RESULT_INVALID_ARGUMENT, Some unallocated1x1, d)) \<and>
   (\<exists>d. avifRGBImageApplyGainMap rgbaAllocatePixels noRemainder (Some pixel1x1) 1 13
          None 0 1 13 (Some unallocated1x1) [] =
        Returns (AVIF_RESULT_INVALID_ARGUMENT, Some unallocated1x1, d)) \<and>
   (\<exists>d. avifRGBImageApplyGainMap rgbaAllocatePixels noRemainder (Some pixel1x1) 1 13
          (Some zeroGainMap) 0 1 13 (Some unallocated1x1) [] =
        Returns (AVIF_RESULT_INVALID_ARGUMENT, Some unallocated1x1, d))"
proof -
  have a: "(- 1 :: real) < 0 \<or> Some pixel1x1 = None \<or> Some sameHeadroomGainMap = None \<or>
      Some unallocated1x1 = None \<or>
      (\<exists>gm. Some sameHeadroomGainMap = Some gm \<and> \<not> spec_metadata_invariants gm)" by simp
  have b: "(0 :: real) < 0 \<or> Some pixel1x1 = None \<or> (None :: avifGainMap option) = None \<or>
      Some unallocated1x1 = None \<or>
      (\<exists>gm. (None :: avifGainMap option) = Some gm \<and> \<not> spec_metadata_invariants gm)" by simp
  have c: "(0 :: real) < 0 \<or> Some pixel1x1 = None \<or> Some zeroGainMap = None \<or>
      Some unallocated1x1 = None \<or>
      (\<exists>gm. Some zeroGainMap = Some gm \<and> \<not> spec_metadata_invariants gm)"
    using zero_invalid by simp
  show ?thesis
    using apply_rejects_invalid_arguments[OF a, where allocatePixels = rgbaAllocatePixels
        and remainder = noRemainder and bp = 1 and bt = 13 and outp = 1 and outt = 13
        and ?diag0.0 = "[]"]
      apply_rejects_invalid_arguments[OF b, where allocatePixels = rgbaAllocatePixels
        and remainder = noRemainder and bp = 1 and bt = 13 and outp = 1 and outt = 13
        and ?diag0.0 = "[]"]
      apply_rejects_invalid_arguments[OF c, where allocatePixels = rgbaAllocatePixels
        and remainder = noRemainder and bp = 1 and bt = 13 and outp = 1 and outt = 13
        and ?diag0.0 = "[]"]
    by blast
qed






subsection \<open>Computing a gain map: sign of the log-ratios\<close>

lemma negPrefix_0: "negPrefix 0 xs = xs"
  by (simp add: negPrefix_def)

lemma negPrefix_all: "length xs \<le> k \<Longrightarrow> negPrefix k xs = map uminus xs"
  by (simp add: negPrefix_def)

lemma negPrefix_length: "length (negPrefix k xs) = length xs"
  by (simp add: negPrefix_def)

lemma negPrefix_nth: "k < length xs \<Longrightarrow> negPrefix k xs ! k = xs ! k"
  by (simp add: negPrefix_def nth_append)

lemma negPrefix_step:
  assumes "k < length xs"
  shows "(negPrefix k xs)[k := negPrefix k xs ! k * (- 1)] = negPrefix (Suc k) xs"
proof -
  have t: "take (Suc k) xs = take k xs @ [xs ! k]"
    using assms by (rule take_Suc_conv_app_nth)
  have d: "drop k xs = xs ! k # drop (Suc k) xs"
    using assms by (simp add: Cons_nth_drop_Suc)
  have l: "length (map uminus (take k xs)) = k" using assms by simp
  have "(negPrefix k xs)[k := negPrefix k xs ! k * (- 1)] =
        map uminus (take k xs) @ (xs ! k # drop (Suc k) xs)[0 := - (xs ! k)]"
    unfolding negPrefix_nth[OF assms] unfolding negPrefix_def d
    using l by (simp add: list_update_append)
  also have "\<dots> = negPrefix (Suc k) xs"
    by (simp add: negPrefix_def t)
  finally show ?thesis .
qed

lemma index_in_range:
  fixes i j w h :: nat
  assumes "i < w" "j < h"
  shows "j * w + i < w * h"
proof -
  have "j * w + i < j * w + w" using assms by simp
  also have "\<dots> = (Suc j) * w" by simp
  also have "\<dots> \<le> h * w" using assms by (intro mult_le_mono1) simp
  finally show ?thesis by (simp add: mult.commute)
qed

lemma readAt_nat: "k < length buf \<Longrightarrow> readAt buf (int k) = Some (buf ! k)"
  by (simp add: readAt_def)

lemma negateRow_correct:
  "i \<le> w \<Longrightarrow> j < h \<Longrightarrow> length orig = w * h \<Longrightarrow> buf = negPrefix (j * w + i) orig \<Longrightarrow>
   negateRow buf w j i = Some (negPrefix (j * w + w) orig)"
proof (induction buf w j i rule: negateRow.induct)
  case (1 buf w j i)
  show ?case
  proof (cases "i < w")
    case False
    with "1.prems" have "i = w" by simp
    with "1.prems" show ?thesis by (subst negateRow.simps) simp
  next
    case True
    let ?k = "j * w + i"
    have k: "?k < length orig" using True "1.prems" by (simp add: index_in_range)
    then have kb: "?k < length buf" using "1.prems" by (simp add: negPrefix_length)
    have rd: "readAt buf (int ?k) = Some (buf ! ?k)"
      using kb by (rule readAt_nat)
    have st: "buf[?k := buf ! ?k * (- 1)] = negPrefix (j * w + (i + 1)) orig"
      using negPrefix_step[OF k] "1.prems" by simp
    have rec: "negateRow (buf[?k := buf ! ?k * (- 1)]) w j (i + 1) =
            Some (negPrefix (j * w + w) orig)"
      using True "1.prems" st by (intro "1.IH"[OF True rd]) simp_all
    have "negateRow buf w j i =
       (case readAt buf (int ?k) of None \<Rightarrow> None
        | Some v \<Rightarrow> negateRow (buf[?k := v * (- 1)]) w j (i + 1))"
      by (subst negateRow.simps) (simp only: True if_True)
    also have "\<dots> = negateRow (buf[?k := buf ! ?k * (- 1)]) w j (i + 1)"
      by (simp only: rd option.case)
    also note rec
    finally show ?thesis .
  qed
qed

lemma negateRows_correct:
  "j \<le> h \<Longrightarrow> length orig = w * h \<Longrightarrow> buf = negPrefix (j * w) orig \<Longrightarrow>
   negateRows buf w h j = Some (map uminus orig)"
proof (induction buf w h j rule: negateRows.induct)
  case (1 buf w h j)
  show ?case
  proof (cases "j < h")
    case False
    with "1.prems" have jh: "j = h" by simp
    have "length orig = h * w" using "1.prems"(2) by (simp only: mult.commute)
    then have "length orig \<le> j * w" unfolding jh by (rule eq_imp_le)
    then have "buf = map uminus orig" using "1.prems" by (simp only: negPrefix_all)
    with False show ?thesis
      by (subst negateRows.simps) simp
  next
    case True
    have row: "negateRow buf w j 0 = Some (negPrefix (j * w + w) orig)"
      using True "1.prems" by (intro negateRow_correct[where h = h]) simp_all
    have rec: "negateRows (negPrefix (j * w + w) orig) w h (j + 1) = Some (map uminus orig)"
      using True "1.prems" by (intro "1.IH"[OF True row]) (simp_all add: add.commute)
    have "negateRows buf w h j =
       (case negateRow buf w j 0 of None \<Rightarrow> None
        | Some buf' \<Rightarrow> negateRows buf' w h (j + 1))"
      by (subst negateRows.simps) (simp only: True if_True)
    also have "\<dots> = negateRows (negPrefix (j * w + w) orig) w h (j + 1)"
      by (simp only: row option.case)
    also note rec
    finally show ?thesis .
  qed
qed

lemma negateRows_whole:
  "length buf = w * h \<Longrightarrow> negateRows buf w h 0 = Some (map uminus buf)"
  by (rule negateRows_correct) (simp_all add: negPrefix_0)

lemma at3_set3_same: "c < 3 \<Longrightarrow> at3 (set3 a c v) c = v"
  by (cases a) simp

lemma at3_set3_other: "c < 3 \<Longrightarrow> k < 3 \<Longrightarrow> k \<noteq> c \<Longrightarrow> at3 (set3 a c v) k = at3 a k"
  by (cases a) auto

lemma negateChannels_correct:
  "n \<le> 3 \<Longrightarrow> \<forall>k<n. c \<le> k \<longrightarrow> length (at3 G k) = w * h \<Longrightarrow>
   \<exists>G'. negateChannels G n w h c = Some G' \<and>
        (\<forall>k<3. at3 G' k = (if c \<le> k \<and> k < n then map uminus (at3 G k) else at3 G k))"
proof (induction G n w h c rule: negateChannels.induct)
  case (1 G n w h c)
  show ?case
  proof (cases "c < n")
    case False
    then show ?thesis by (subst negateChannels.simps) auto
  next
    case True
    then have c3: "c < 3" using "1.prems" by simp
    have len: "length (at3 G c) = w * h" using True "1.prems" by simp
    have rows: "negateRows (at3 G c) w h 0 = Some (map uminus (at3 G c))"
      using len by (rule negateRows_whole)
    let ?G = "set3 G c (map uminus (at3 G c))"
    have "\<forall>k<n. c + 1 \<le> k \<longrightarrow> length (at3 ?G k) = w * h"
      using "1.prems" c3 by (auto simp: at3_set3_other)
    then obtain G' where G': "negateChannels ?G n w h (c + 1) = Some G'"
      "\<forall>k<3. at3 G' k = (if c + 1 \<le> k \<and> k < n then map uminus (at3 ?G k) else at3 ?G k)"
      using "1.IH"[OF True rows] "1.prems" by blast
    have "negateChannels G n w h c =
       (case negateRows (at3 G c) w h 0 of None \<Rightarrow> None
        | Some buf' \<Rightarrow> negateChannels (set3 G c buf') n w h (c + 1))"
      by (subst negateChannels.simps) (simp only: True if_True)
    also have "\<dots> = negateChannels ?G n w h (c + 1)"
      by (simp only: rows option.case)
    also note G'(1)
    finally have eq: "negateChannels G n w h c = Some G'" .
    have "\<forall>k<3. at3 G' k = (if c \<le> k \<and> k < n then map uminus (at3 G k) else at3 G k)"
    proof (intro allI impI)
      fix k :: nat assume k: "k < 3"
      show "at3 G' k = (if c \<le> k \<and> k < n then map uminus (at3 G k) else at3 G k)"
      proof (cases "k = c")
        case True
        then show ?thesis using G'(2) k c3 \<open>c < n\<close> by (simp add: at3_set3_same)
      next
        case False
        then show ?thesis using G'(2) k c3 by (auto simp: at3_set3_other)
      qed
    qed
    with eq show ?thesis by blast
  qed
qed

lemma estimator_returns:
  assumes "1 \<le> N" and "N = int (length B)"
  shows "\<exists>res lo hi. avifFindMinMaxWithoutOutliers B N a = Some (res, lo, hi)"
  using estimator_cases[OF assms, of a] by (auto split: if_splits)

lemma rangesLoop_total:
  "n \<le> 3 \<Longrightarrow> 1 \<le> N \<Longrightarrow> \<forall>k<n. int (length (at3 G k)) = N \<Longrightarrow>
   \<exists>res mins maxs. rangesLoop G n N a c mn mx = Some (res, mins, maxs)"
proof (induction G n N a c mn mx rule: rangesLoop.induct)
  case (1 G n N a c mn mx)
  show ?case
  proof (cases "c < n")
    case False
    then show ?thesis by (subst rangesLoop.simps) simp
  next
    case True
    then have "N = int (length (at3 G c))" using "1.prems" by simp
    then obtain res lo hi where
      f: "avifFindMinMaxWithoutOutliers (at3 G c) N (a c) = Some (res, lo, hi)"
      using estimator_returns[OF "1.prems"(2), of "at3 G c" "a c"] by blast
    show ?thesis
    proof (cases "res = AVIF_RESULT_OK")
      case False
      then show ?thesis using True f by (subst rangesLoop.simps) simp
    next
      case ok: True
      have "\<exists>res mins maxs. rangesLoop G n N a (c + 1) (set3 mn c lo) (set3 mx c hi) =
              Some (res, mins, maxs)"
        using "1.prems" ok by (intro "1.IH"[OF True f refl refl]) simp_all
      then show ?thesis using True f ok by (subst rangesLoop.simps) simp
    qed
  qed
qed


text \<open>
  C7. In avifRGBImageComputeGainMap, once both headrooms are converted, every value of the
  gainMapF buffers in use is negated exactly when the alternate headroom is strictly less
  than the base headroom, and no value is changed otherwise; the range estimation (and
  with it the normalization that follows) works on the buffers after this step.
\<close>

theorem compute_negates_iff_alternate_headroom_smaller:
  assumes "toUnsignedFraction baseHeadroom = Some bh"
    and "toUnsignedFraction alternateHeadroom = Some ah"
    and "n = 1 \<or> n = 3"
    and "\<forall>c<n. length (at3 gainMapF c) = w * h"
    and "0 < w" and "0 < h"
  shows "\<exists>res mins maxs G'.
           computeSignAndRanges toUnsignedFraction baseHeadroom alternateHeadroom gainMap
               gainMapF n w h allocOk =
             Some (res, gainMap\<lparr>baseHdrHeadroom := bh, alternateHdrHeadroom := ah\<rparr>, G',
                   mins, maxs) \<and>
           (\<forall>c<3. at3 G' c =
                    (if c < n \<and> alternateHeadroom < baseHeadroom
                     then map uminus (at3 gainMapF c) else at3 gainMapF c)) \<and>
           rangesLoop G' n (int w * int h) allocOk 0 (Array3 0 0 0) (Array3 0 0 0) =
             Some (res, mins, maxs)"
proof -
  have n3: "n \<le> 3" using assms(3) by auto
  have N1: "1 \<le> int w * int h"
  proof -
    have "0 < w * h" using assms(5,6) by simp
    then have "1 \<le> int (w * h)" by linarith
    then show ?thesis by simp
  qed
  obtain G' where G': "(if alternateHeadroom < baseHeadroom
                        then negateChannels gainMapF n w h 0 else Some gainMapF) = Some G'"
    and sh: "\<forall>c<3. at3 G' c = (if c < n \<and> alternateHeadroom < baseHeadroom
                     then map uminus (at3 gainMapF c) else at3 gainMapF c)"
  proof (cases "alternateHeadroom < baseHeadroom")
    case True
    have "\<forall>k<n. 0 \<le> k \<longrightarrow> length (at3 gainMapF k) = w * h" using assms(4) by simp
    from negateChannels_correct[OF n3 this]
    obtain G' where "negateChannels gainMapF n w h 0 = Some G'"
      "\<forall>k<3. at3 G' k = (if 0 \<le> k \<and> k < n then map uminus (at3 gainMapF k)
                          else at3 gainMapF k)" by blast
    with True that show ?thesis by simp
  next
    case False
    with that[of gainMapF] show ?thesis by simp
  qed
  have "\<forall>k<n. int (length (at3 G' k)) = int w * int h"
    using sh assms(4) n3 by auto
  then obtain res mins maxs where
    r: "rangesLoop G' n (int w * int h) allocOk 0 (Array3 0 0 0) (Array3 0 0 0) =
          Some (res, mins, maxs)"
    using rangesLoop_total[OF n3 N1, of G' allocOk 0 "Array3 0 0 0" "Array3 0 0 0"] by blast
  have "computeSignAndRanges toUnsignedFraction baseHeadroom alternateHeadroom gainMap
               gainMapF n w h allocOk =
        Some (res, gainMap\<lparr>baseHdrHeadroom := bh, alternateHdrHeadroom := ah\<rparr>, G', mins, maxs)"
    unfolding computeSignAndRanges_def Let_def assms(1,2) option.case G' r by simp
  with sh r show ?thesis by blast
qed

theorem compute_negates_iff_alternate_headroom_smaller_witness:
  "\<exists>res mins maxs.
      computeSignAndRanges wholeToUnsignedFraction 1 0 zeroGainMap
          (Array3 [1, - 2] [] []) 1 2 1 (\<lambda>c. True) =
        Some (res, zeroGainMap\<lparr>baseHdrHeadroom := \<lparr>un = 1, ud = 1\<rparr>,
                               alternateHdrHeadroom := \<lparr>un = 0, ud = 1\<rparr>\<rparr>,
              Array3 [- 1, 2] [] [], mins, maxs)"
proof -
  have a: "wholeToUnsignedFraction 1 = Some \<lparr>un = 1, ud = 1\<rparr>"
    by (simp add: wholeToUnsignedFraction_def)
  have b: "wholeToUnsignedFraction 0 = Some \<lparr>un = 0, ud = 1\<rparr>"
    by (simp add: wholeToUnsignedFraction_def)
  have c: "(1::nat) = 1 \<or> (1::nat) = 3" by simp
  have d: "\<forall>c<(1::nat). length (at3 (Array3 [1, - 2 :: real] [] []) c) = 2 * 1" by simp
  have e: "(0::nat) < 2" "(0::nat) < 1" by simp_all
  from compute_negates_iff_alternate_headroom_smaller[OF a b c d e,
      of zeroGainMap "\<lambda>c. True"]
  obtain res mins maxs G' where
    r: "computeSignAndRanges wholeToUnsignedFraction 1 0 zeroGainMap
          (Array3 [1, - 2] [] []) 1 2 1 (\<lambda>c. True) =
        Some (res, zeroGainMap\<lparr>baseHdrHeadroom := \<lparr>un = 1, ud = 1\<rparr>,
                               alternateHdrHeadroom := \<lparr>un = 0, ud = 1\<rparr>\<rparr>, G', mins, maxs)"
    and g: "\<forall>c<3. at3 G' c = (if c < 1 \<and> (0::real) < 1
                     then map uminus (at3 (Array3 [1, - 2] [] []) c)
                     else at3 (Array3 [1, - 2] [] []) c)"
    by blast
  have "at3 G' 0 = [- 1, 2]" "at3 G' 1 = []" "at3 G' 2 = []"
    using g by simp_all
  then have "G' = Array3 [- 1, 2] [] []"
    by (cases G') simp
  with r show ?thesis by blast
qed

subsection \<open>Computing a gain map: exits and resources\<close>

lemma allocGainMapF_frame:
  "allocGainMapF env n c r = (ok, r') \<Longrightarrow>
   gainMapRGBLive r' = gainMapRGBLive r \<and> planesLive r' = planesLive r"
proof (induction env n c r rule: allocGainMapF.induct)
  case (1 env n c r)
  then show ?case
    by (subst (asm) (2) allocGainMapF.simps) (auto split: if_splits)
qed

lemma allocGainMapF_step:
  "c < n \<Longrightarrow> allocGainMapFOk env c \<Longrightarrow> c' = c + 1 \<Longrightarrow>
   allocGainMapF env n c r =
     allocGainMapF env n c' (r\<lparr>gainMapFLive := set3 (gainMapFLive r) c True\<rparr>)"
  by (subst allocGainMapF.simps) simp

lemma allocGainMapF_end: "allocGainMapF env n n r = (True, r)"
  by (subst allocGainMapF.simps) simp

lemma allocGainMapF_all_ok:
  assumes "\<forall>c<3. allocGainMapFOk env c"
  shows "allocGainMapF env 3 0 r = (True, r\<lparr>gainMapFLive := Array3 True True True\<rparr>)"
proof -
  obtain x y z where g: "gainMapFLive r = Array3 x y z" by (cases "gainMapFLive r")
  have "allocGainMapF env 3 0 r =
          allocGainMapF env 3 1 (r\<lparr>gainMapFLive := Array3 True y z\<rparr>)"
    using assms g by (subst allocGainMapF_step[where c' = 1]) simp_all
  also have "\<dots> = allocGainMapF env 3 2 (r\<lparr>gainMapFLive := Array3 True True z\<rparr>)"
    using assms by (subst allocGainMapF_step[where c' = 2]) simp_all
  also have "\<dots> = allocGainMapF env 3 3 (r\<lparr>gainMapFLive := Array3 True True True\<rparr>)"
    using assms by (subst allocGainMapF_step[where c' = 3]) simp_all
  also have "\<dots> = (True, r\<lparr>gainMapFLive := Array3 True True True\<rparr>)"
    by (rule allocGainMapF_end)
  finally show ?thesis .
qed

lemma findMinMaxLoop_step:
  "c < n \<Longrightarrow> findMinMaxRes env c = AVIF_RESULT_OK \<Longrightarrow> c' = c + 1 \<Longrightarrow>
   findMinMaxLoop env n c = findMinMaxLoop env n c'"
  by (subst findMinMaxLoop.simps) simp

lemma findMinMaxLoop_end: "findMinMaxLoop env n n = AVIF_RESULT_OK"
  by (subst findMinMaxLoop.simps) simp

lemma findMinMaxLoop_all_ok:
  assumes "\<forall>c<3. findMinMaxRes env c = AVIF_RESULT_OK"
  shows "findMinMaxLoop env 3 0 = AVIF_RESULT_OK"
proof -
  have "findMinMaxLoop env 3 0 = findMinMaxLoop env 3 1"
    using assms by (intro findMinMaxLoop_step) simp_all
  also have "\<dots> = findMinMaxLoop env 3 2"
    using assms by (intro findMinMaxLoop_step) simp_all
  also have "\<dots> = findMinMaxLoop env 3 3"
    using assms by (intro findMinMaxLoop_step) simp_all
  also have "\<dots> = AVIF_RESULT_OK" by (rule findMinMaxLoop_end)
  finally show ?thesis .
qed

text \<open>
  Every exit through the label \<open>cleanup\<close>, and every return before the first allocation,
  leaves no float buffer and no scratch pixels behind; after a failure the planes of the
  gain-map image are allocated only if they were on entry and the function returned before
  touching them.
\<close>

lemma compute_cleanup_discipline:
  assumes "gainMapColorSpaceInfoOk env"
    and "scaleRequested env \<longrightarrow> scaleRes env = AVIF_RESULT_OK"
    and "avifRGBImageComputeGainMap env p = (res, r)"
  shows "gainMapFLive r = Array3 False False False \<and> \<not> gainMapRGBLive r \<and>
         (res \<noteq> AVIF_RESULT_OK \<and> planesLive r \<longrightarrow> p)"
  using assms
  by (auto simp: avifRGBImageComputeGainMap_def cleanup_def Let_def
           split: if_splits prod.splits bool.splits dest: allocGainMapF_frame)

text \<open>
  C4. The claim is that every return releases the float buffers gainMapF[c] and the scratch
  RGB pixels, and that every failing return frees the planes of the gain-map image. Two
  returns do not go through \<open>cleanup\<close>: the one taken when the colour-space information
  of the scratch RGB image is not supported, and the one inside \<open>AVIF_CHECKRES\<close> when the
  final rescaling fails. Both leave the three float buffers, the scratch pixels and the
  planes allocated while returning an error.
\<close>

theorem compute_direct_returns_skip_cleanup:
  "avifRGBImageComputeGainMap (allOkEnv\<lparr>gainMapColorSpaceInfoOk := False\<rparr>) False =
     (AVIF_RESULT_NOT_IMPLEMENTED,
      \<lparr>gainMapFLive = Array3 True True True, gainMapRGBLive = True, planesLive = True\<rparr>) \<and>
   avifRGBImageComputeGainMap
       (allOkEnv\<lparr>scaleRequested := True, scaleRes := AVIF_RESULT_NOT_IMPLEMENTED\<rparr>) False =
     (AVIF_RESULT_NOT_IMPLEMENTED,
      \<lparr>gainMapFLive = Array3 True True True, gainMapRGBLive = True, planesLive = True\<rparr>)"
proof -
  let ?e1 = "allOkEnv\<lparr>gainMapColorSpaceInfoOk := False\<rparr>"
  let ?e2 = "allOkEnv\<lparr>scaleRequested := True, scaleRes := AVIF_RESULT_NOT_IMPLEMENTED\<rparr>"
  have a1: "\<forall>c<3. allocGainMapFOk ?e1 c" and a2: "\<forall>c<3. allocGainMapFOk ?e2 c"
    by (simp_all add: allOkEnv_def)
  have f1: "\<forall>c<3. findMinMaxRes ?e1 c = AVIF_RESULT_OK"
    and f2: "\<forall>c<3. findMinMaxRes ?e2 c = AVIF_RESULT_OK"
    by (simp_all add: allOkEnv_def)
  have 1: "avifRGBImageComputeGainMap ?e1 False =
     (AVIF_RESULT_NOT_IMPLEMENTED,
      \<lparr>gainMapFLive = Array3 True True True, gainMapRGBLive = True, planesLive = True\<rparr>)"
    unfolding avifRGBImageComputeGainMap_def
    by (simp add: allocGainMapF_all_ok[OF a1] findMinMaxLoop_all_ok[OF f1] Let_def)
       (simp add: allOkEnv_def)
  have 2: "avifRGBImageComputeGainMap ?e2 False =
     (AVIF_RESULT_NOT_IMPLEMENTED,
      \<lparr>gainMapFLive = Array3 True True True, gainMapRGBLive = True, planesLive = True\<rparr>)"
    unfolding avifRGBImageComputeGainMap_def
    by (simp add: allocGainMapF_all_ok[OF a2] findMinMaxLoop_all_ok[OF f2] Let_def)
       (simp add: allOkEnv_def)
  from 1 2 show ?thesis by (rule conjI)
qed

end
